theory Spec2Isabelle
  imports Complex_Main
begin

section \<open>The tutorial's problem definition\<close>

text \<open>
  The notebook \<^verbatim>\<open>Tutorials/tuto_Optimization_Bayes_machine_SCIM.ipynb\<close> defines an
  optimization problem over a reference simulation whose input current \<^verbatim>\<open>Ir\<close> is a
  numpy array of 30 floats. Floats are modelled as reals. Python objects that the
  notebook's functions only read are records; the one object they mutate in place, the
  numpy array behind \<^verbatim>\<open>simu.input.Ir.value\<close>, lives in an explicit store so that a
  write through one reference is seen through every other reference to the same array.
\<close>

subsection \<open>Errors and the store\<close>

datatype py_error =
    IndexError      \<comment> \<open>an index outside the array\<close>
  | TypeError       \<comment> \<open>an operation on \<^verbatim>\<open>None\<close>, or a call with too many arguments\<close>
  | ZeroDivision    \<comment> \<open>a float division by zero (numpy yields inf or nan)\<close>
  | InvalidValue    \<comment> \<open>a square root of a negative float (numpy yields nan)\<close>

type_synonym addr = nat

text \<open>Every reference of a running Python program points to an object: the store is total.\<close>

type_synonym store = "addr \<Rightarrow> real list"

subsection \<open>The simulation and its output\<close>

text \<open>
  \<^verbatim>\<open>InputCurrent(Ir=Ir)\<close> wraps the array in an object whose \<^verbatim>\<open>value\<close> attribute refers
  to the array. The models \<^verbatim>\<open>elec\<close>, \<^verbatim>\<open>mag\<close>, \<^verbatim>\<open>force\<close>, \<^verbatim>\<open>struct\<close> and the machine of the
  reference simulation are all \<^verbatim>\<open>None\<close>.

  The records are named after the classes. Fields keep the names of the attributes,
  except that \<^verbatim>\<open>value\<close> is \<open>val\<close> (\<open>value\<close> is a keyword) and that an attribute name which
  several classes share (\<^verbatim>\<open>name\<close>, \<^verbatim>\<open>symbol\<close>, \<^verbatim>\<open>value\<close>, \<^verbatim>\<open>simu\<close>, \<^verbatim>\<open>mag\<close>) gets a prefix,
  since the fields of all records share one name space.
\<close>

record ImportMatrixVal =
  val :: addr

record InputCurrent =
  Ir :: ImportMatrixVal

record Simu1 =
  simu_name :: string
  machine :: "unit option"
  input :: InputCurrent
  elec :: "unit option"
  simu_mag :: "unit option"
  force :: "unit option"
  struct :: "unit option"

text \<open>
  The magnetic output object: the three attributes the notebook mentions. An attribute
  that nothing has set is \<^verbatim>\<open>None\<close>.
\<close>

record OutMag =
  Tem_av :: "real option"
  Tem_rip_norm :: "real option"
  Tem_rip_pp :: "real option"

record Output =
  simu :: Simu1
  mag :: OutMag

text \<open>
  \<^verbatim>\<open>simu_ref = Simu1(name="Tuto_Opti_Bayes", machine=None)\<close>, with
  \<^verbatim>\<open>Ir = np.zeros(30)\<close> stored at address \<open>a\<close>.
\<close>

definition simu_ref :: "addr \<Rightarrow> Simu1" where
  "simu_ref a =
     \<lparr>simu_name = ''Tuto_Opti_Bayes'', machine = None,
      input = \<lparr>Ir = \<lparr>val = a\<rparr>\<rparr>,
      elec = None, simu_mag = None, force = None, struct = None\<rparr>"

definition zeros :: "nat \<Rightarrow> real list" where
  "zeros n = replicate n 0"

subsection \<open>The evaluation function\<close>

text \<open>
  \<^verbatim>\<open>
  def evaluate_fct(output):
      x = output.simu.input.Ir.value
      f1 = lambda x: x[0]
      g = lambda x: 1 + (9 / 29) * np.sum(x[1:])
      h = lambda f1, g: 1 - np.sqrt(f1 / g) - (f1 / g) * np.sin(10 * np.pi * f1)
      output.mag.Tem_av = f1(x)
      output.mag.Tem_rip_norm = g(x) * h(f1(x), g(x))
  \<close>
  \<^verbatim>\<open>x[0]\<close> raises on an empty array. A float division by zero and the square root of
  a negative float do not raise in numpy: they produce inf or nan. The model reports both
  as errors, so that a result \<open>Inr\<close> means that every operation was well defined and the
  values written are finite.
\<close>

definition f1 :: "real list \<Rightarrow> py_error + real" where
  "f1 x = (case x of [] \<Rightarrow> Inl IndexError | x0 # _ \<Rightarrow> Inr x0)"

definition g :: "real list \<Rightarrow> real" where
  "g x = 1 + (9 / 29) * sum_list (drop 1 x)"

definition h :: "real \<Rightarrow> real \<Rightarrow> py_error + real" where
  "h f1v gv =
     (if gv = 0 then Inl ZeroDivision
      else if f1v / gv < 0 then Inl InvalidValue
      else Inr (1 - sqrt (f1v / gv) - (f1v / gv) * sin (10 * pi * f1v)))"

definition evaluate_fct :: "store \<Rightarrow> Output \<Rightarrow> py_error + Output" where
  "evaluate_fct s out =
     (let x = s (val (Ir (input (simu out)))) in
      case f1 x of
        Inl e \<Rightarrow> Inl e
      | Inr a \<Rightarrow>
          (case h a (g x) of
             Inl e \<Rightarrow> Inl e
           | Inr b \<Rightarrow>
               Inr (out\<lparr>mag := (mag out)\<lparr>Tem_av := Some a, Tem_rip_norm := Some (g x * b)\<rparr>\<rparr>)))"

subsection \<open>Design variables\<close>

text \<open>
  \<^verbatim>\<open>
  def gen_setter(i):
      def new_setter(simu, value):
          simu.input.Ir.value[i] = value
      return new_setter
  \<close>
  The setter stores into the array in place. numpy counts a negative index from the end
  and raises \<^verbatim>\<open>IndexError\<close> outside the array.
\<close>

definition norm_index :: "int \<Rightarrow> nat \<Rightarrow> py_error + nat" where
  "norm_index i n =
     (let j = (if i < 0 then i + int n else i)
      in if 0 \<le> j \<and> j < int n then Inr (nat j) else Inl IndexError)"

definition gen_setter :: "int \<Rightarrow> Simu1 \<Rightarrow> real \<Rightarrow> store \<Rightarrow> py_error + store" where
  "gen_setter i sim v s =
     (let a = val (Ir (input sim)) in
      case norm_index i (length (s a)) of
        Inl e \<Rightarrow> Inl e
      | Inr j \<Rightarrow> Inr (s(a := (s a)[j := v])))"

text \<open>
  \<^verbatim>\<open>np.random.uniform(low, high)\<close> draws from the half-open interval \<open>[low, high)\<close>: it
  returns \<open>low + (high - low) * u\<close> for the generator's next draw \<open>u\<close> of \<open>[0, 1)\<close>. The
  generator is numpy's global one; its draw is an argument of the model.
\<close>

definition uniform :: "real \<Rightarrow> real \<Rightarrow> real \<Rightarrow> real" where
  "uniform low high u = low + (high - low) * u"

text \<open>
  \<^verbatim>\<open>get_value=lambda space: np.random.uniform(*space)\<close> unpacks the list \<open>space\<close> into
  the arguments of \<open>uniform\<close>, whose defaults are \<open>low = 0\<close> and \<open>high = 1\<close>. A third
  element would be taken as the \<open>size\<close> argument and a fourth is one argument too many:
  neither call yields a scalar sample, and the model reports \<open>TypeError\<close> for both.
\<close>

definition get_value_uniform :: "real list \<Rightarrow> real \<Rightarrow> py_error + real" where
  "get_value_uniform space u =
     (case space of
        [] \<Rightarrow> Inr (uniform 0 1 u)
      | [low] \<Rightarrow> Inr (uniform low 1 u)
      | [low, high] \<Rightarrow> Inr (uniform low high u)
      | _ \<Rightarrow> Inl TypeError)"

record OptiDesignVar =
  var_name :: string
  var_symbol :: string
  type_var :: string
  space :: "real list"
  get_value :: "real list \<Rightarrow> real \<Rightarrow> py_error + real"
  setter :: "Simu1 \<Rightarrow> real \<Rightarrow> store \<Rightarrow> py_error + store"

text \<open>Python's \<^verbatim>\<open>str(i)\<close> of a natural number: its decimal digits.\<close>

fun str :: "nat \<Rightarrow> string" where
  "str n =
     (if n < 10 then [''0123456789'' ! n]
      else str (n div 10) @ [''0123456789'' ! (n mod 10)])"

text \<open>
  \<^verbatim>\<open>
  for i in range(30):
      my_vars.append(OptiDesignVar(name="Ir({})".format(i), symbol="var_" + str(i),
          type_var="interval", space=[0, 1],
          get_value=lambda space: np.random.uniform(*space), setter=gen_setter(i)))
  \<close>
\<close>

definition my_vars :: "OptiDesignVar list" where
  "my_vars =
     map (\<lambda>i. \<lparr>var_name = ''Ir('' @ str i @ '')'', var_symbol = ''var_'' @ str i,
               type_var = ''interval'', space = [0, 1],
               get_value = get_value_uniform, setter = gen_setter (int i)\<rparr>)
       [0..<30]"

text \<open>
  The domain a descriptor declares: the closed interval \<open>[lo, hi]\<close> of an \<^verbatim>\<open>interval\<close>
  variable with \<open>space = [lo, hi]\<close>, the listed values of a \<^verbatim>\<open>set\<close> variable.
\<close>

definition in_domain :: "OptiDesignVar \<Rightarrow> real \<Rightarrow> bool" where
  "in_domain d v =
     (if type_var d = ''interval'' then
        (case space d of [lo, hi] \<Rightarrow> lo \<le> v \<and> v \<le> hi | _ \<Rightarrow> False)
      else if type_var d = ''set'' then v \<in> set (space d)
      else False)"

text \<open>
  Modelled from the spec: the solver's sampling loop is not part of the notebook.
  \<open>sample_initial(n)\<close> produces \<open>n\<close> design points by independently sampling each
  variable descriptor via its initial-sampling rule, that is by calling the descriptor's
  \<^verbatim>\<open>get_value(space)\<close> (the notebook: ``the function takes the space in argument and
  returns the variable value''); the per-iteration candidate pools come from the same
  rule. An exception of one call ends the sampling. The generator's draws are the
  stream \<open>rng\<close>: the point sampled from position \<open>k\<close> consumes the draws \<open>k, k + 1, ...\<close>,
  one for each variable, and \<open>sample_from n\<close> samples \<open>n\<close> points one after the other
  (the initial batch from position 0, a later pool from a later position).
\<close>

fun sample_point :: "OptiDesignVar list \<Rightarrow> (nat \<Rightarrow> real) \<Rightarrow> nat \<Rightarrow> py_error + real list" where
  "sample_point [] rng k = Inr []"
| "sample_point (d # ds) rng k =
     (case get_value d (space d) (rng k) of
        Inl e \<Rightarrow> Inl e
      | Inr v \<Rightarrow>
          (case sample_point ds rng (Suc k) of
             Inl e \<Rightarrow> Inl e
           | Inr vs \<Rightarrow> Inr (v # vs)))"

text \<open>
  Modelled from the spec: \<open>n\<close> design points sampled one after the other from position
  \<open>k\<close> of the stream (the solver's sampling loop is not in the notebook).
\<close>

fun sample_from :: "nat \<Rightarrow> OptiDesignVar list \<Rightarrow> (nat \<Rightarrow> real) \<Rightarrow> nat \<Rightarrow> py_error + real list list" where
  "sample_from 0 ds rng k = Inr []"
| "sample_from (Suc n) ds rng k =
     (case sample_point ds rng k of
        Inl e \<Rightarrow> Inl e
      | Inr p \<Rightarrow>
          (case sample_from n ds rng (k + length ds) of
             Inl e \<Rightarrow> Inl e
           | Inr ps \<Rightarrow> Inr (p # ps)))"

text \<open>
  Modelled from the spec: \<open>sample_initial(n)\<close>, the initial batch, sampled from the start
  of the stream.
\<close>

definition sample_initial :: "nat \<Rightarrow> OptiDesignVar list \<Rightarrow> (nat \<Rightarrow> real) \<Rightarrow> py_error + real list list" where
  "sample_initial n ds rng = sample_from n ds rng 0"

subsection \<open>Objectives, constraints and the problem\<close>

text \<open>
  The keepers \<^verbatim>\<open>lambda output: output.mag.Tem_av\<close> and
  \<^verbatim>\<open>lambda output: output.mag.Tem_rip_norm\<close> read one attribute each.
\<close>

record OptiObjective =
  obj_symbol :: string
  obj_name :: string
  keeper :: "Output \<Rightarrow> real option"

definition objs :: "OptiObjective list" where
  "objs =
     [\<lparr>obj_symbol = ''obj1'', obj_name = ''Objective 1'', keeper = (\<lambda>out. Tem_av (mag out))\<rparr>,
      \<lparr>obj_symbol = ''obj2'', obj_name = ''Objective 2'',
       keeper = (\<lambda>out. Tem_rip_norm (mag out))\<rparr>]"

text \<open>
  \<^verbatim>\<open>
  my_constraint = [OptiConstraint(name="const1", type_const="<=", value=700,
      get_variable="lambda output: abs(output.mag.Tem_rip_pp)")]
  \<close>
  \<^verbatim>\<open>abs(None)\<close> raises \<^verbatim>\<open>TypeError\<close>.
\<close>

record OptiConstraint =
  const_name :: string
  type_const :: string
  const_value :: real
  get_variable :: "Output \<Rightarrow> py_error + real"

definition my_constraint :: "OptiConstraint list" where
  "my_constraint =
     [\<lparr>const_name = ''const1'', type_const = ''<='', const_value = 700,
       get_variable =
         (\<lambda>out. case Tem_rip_pp (mag out) of None \<Rightarrow> Inl TypeError | Some v \<Rightarrow> Inr \<bar>v\<bar>)\<rparr>]"

text \<open>
  \<^verbatim>\<open>
  my_prob = OptiProblem(simu=simu_ref, design_var=my_vars, obj_func=objs,
                        eval_func=evaluate_fct)
  \<close>
  The call passes no \<^verbatim>\<open>constraint\<close> argument (the notebook lists constraints as
  optional), so the problem holds none: \<^verbatim>\<open>my_constraint\<close> is defined and never used.
\<close>

record OptiProblem =
  prob_simu :: Simu1
  design_var :: "OptiDesignVar list"
  obj_func :: "OptiObjective list"
  eval_func :: "store \<Rightarrow> Output \<Rightarrow> py_error + Output"
  constraint :: "OptiConstraint list"

definition my_prob :: "addr \<Rightarrow> OptiProblem" where
  "my_prob a =
     \<lparr>prob_simu = simu_ref a, design_var = my_vars, obj_func = objs,
      eval_func = evaluate_fct, constraint = []\<rparr>"

text \<open>
  Modelled from the spec: the solver's feasibility check is not part of the notebook. A
  constraint holds a comparison operator from \<^verbatim>\<open>{==, <=, <, >=, >}\<close>, a threshold and an
  extraction function. \<open>compare op v t\<close> is the comparison of the value \<open>v\<close> with the
  threshold \<open>t\<close>; any other operator is an error.
\<close>

definition compare :: "string \<Rightarrow> real \<Rightarrow> real \<Rightarrow> py_error + bool" where
  "compare op v t =
     (if op = ''=='' then Inr (v = t)
      else if op = ''<='' then Inr (v \<le> t)
      else if op = ''<'' then Inr (v < t)
      else if op = ''>='' then Inr (v \<ge> t)
      else if op = ''>'' then Inr (v > t)
      else Inl TypeError)"

text \<open>
  Modelled from the spec: one constraint comparison on an output, the extracted value
  against the operator and the threshold (the solver's check is not in the notebook).
\<close>

definition check_constraint :: "OptiConstraint \<Rightarrow> Output \<Rightarrow> py_error + bool" where
  "check_constraint c out =
     (case get_variable c out of
        Inl e \<Rightarrow> Inl e
      | Inr v \<Rightarrow> compare (type_const c) v (const_value c))"

text \<open>
  Modelled from the spec: a point is feasible iff every constraint comparison holds (the
  solver's check is not in the notebook).
\<close>

fun is_feasible :: "OptiConstraint list \<Rightarrow> Output \<Rightarrow> py_error + bool" where
  "is_feasible [] out = Inr True"
| "is_feasible (c # cs) out =
     (case check_constraint c out of
        Inl e \<Rightarrow> Inl e
      | Inr b \<Rightarrow>
          (case is_feasible cs out of
             Inl e \<Rightarrow> Inl e
           | Inr bs \<Rightarrow> Inr (b \<and> bs)))"

text \<open>
  A store whose arrays are all \<^verbatim>\<open>np.zeros(30)\<close>, and an output of the reference
  simulation at address 0, not evaluated yet, whose \<^verbatim>\<open>Tem_rip_pp\<close> holds \<open>pp\<close>.
\<close>

definition store0 :: store where
  "store0 = (\<lambda>a. zeros 30)"

definition out0 :: "real option \<Rightarrow> Output" where
  "out0 pp = \<lparr>simu = simu_ref 0, mag = \<lparr>Tem_av = None, Tem_rip_norm = None, Tem_rip_pp = pp\<rparr>\<rparr>"

text \<open>What \<open>evaluate_fct\<close> makes of \<open>out0 pp\<close> in \<open>store0\<close>: \<open>f1 = 0\<close>, \<open>g = 1\<close>, \<open>h = 1\<close>.\<close>

definition out1 :: "real option \<Rightarrow> Output" where
  "out1 pp = \<lparr>simu = simu_ref 0, mag = \<lparr>Tem_av = Some 0, Tem_rip_norm = Some 1, Tem_rip_pp = pp\<rparr>\<rparr>"

text \<open>A generator whose every draw is \<open>1/2\<close>.\<close>

definition half_draws :: "nat \<Rightarrow> real" where
  "half_draws k = 1 / 2"

text \<open>
  Two interval variables with the notebook's sampling rule and bounds other than 0 and
  1: \<open>[2, 5]\<close> and \<open>[-1, 1]\<close>.
\<close>

definition demo_vars :: "OptiDesignVar list" where
  "demo_vars =
     [\<lparr>var_name = ''a'', var_symbol = ''var_a'', type_var = ''interval'', space = [2, 5],
       get_value = get_value_uniform, setter = gen_setter 0\<rparr>,
      \<lparr>var_name = ''b'', var_symbol = ''var_b'', type_var = ''interval'', space = [-1, 1],
       get_value = get_value_uniform, setter = gen_setter 1\<rparr>]"

subsection \<open>The evaluation of a design point\<close>

text \<open>
  Modelled from the spec: the solver's evaluation of a design point is not part of the
  notebook, which describes it: ``Each optimization evaluation will copy the reference
  simulation, set the value of the design variables and call the evaluation function on
  the simulation.'' The copy of the reference simulation has an array of its own, a copy
  of the reference array at the fresh address \<open>b\<close>.
\<close>

definition copy_simu :: "Simu1 \<Rightarrow> addr \<Rightarrow> store \<Rightarrow> Simu1 \<times> store" where
  "copy_simu sim b s =
     (sim\<lparr>input := (input sim)\<lparr>Ir := (Ir (input sim))\<lparr>val := b\<rparr>\<rparr>\<rparr>,
      s(b := s (val (Ir (input sim)))))"

text \<open>
  Modelled from the spec: \<open>bind(point, target)\<close> writes each component of the point into
  the evaluation input with the binding function (the setter) of its descriptor, in the
  order of the variables; an exception of a setter ends the binding.
\<close>

fun bind_point :: "OptiDesignVar list \<Rightarrow> Simu1 \<Rightarrow> real list \<Rightarrow> store \<Rightarrow> py_error + store" where
  "bind_point (d # ds) sim (v # vs) s =
     (case setter d sim v s of
        Inl e \<Rightarrow> Inl e
      | Inr s' \<Rightarrow> bind_point ds sim vs s')"
| "bind_point _ sim _ s = Inr s"

text \<open>
  Modelled from the spec: the Evaluator's call on a design point \<open>x\<close>: copy the
  reference simulation, bind the point, and call the problem's evaluation function on a
  fresh output of the copy. It returns the store and the output that the evaluation
  function has written.
\<close>

definition evaluate_point :: "OptiProblem \<Rightarrow> addr \<Rightarrow> store \<Rightarrow> real list \<Rightarrow> py_error + store \<times> Output" where
  "evaluate_point prob b s x =
     (case copy_simu (prob_simu prob) b s of (sim, s0) \<Rightarrow>
        (case bind_point (design_var prob) sim x s0 of
           Inl e \<Rightarrow> Inl e
         | Inr s1 \<Rightarrow>
             (case eval_func prob s1
                     \<lparr>simu = sim,
                      mag = \<lparr>Tem_av = None, Tem_rip_norm = None, Tem_rip_pp = None\<rparr>\<rparr> of
                Inl e \<Rightarrow> Inl e
              | Inr out \<Rightarrow> Inr (s1, out))))"

section \<open>The surrogate-assisted optimization engine\<close>

text \<open>
  The solver that the notebook calls (\<^verbatim>\<open>OptiBayesAlgSmoot(...).solve()\<close>) and the result
  object it returns are not part of the notebook. The definitions of this section are
  modelled from the spec: the data model (section 3), the components (sections 4.2 to
  4.8), cancellation (section 5) and the failure policy (section 7). What the spec
  leaves to the implementer (the regression behind a surrogate, the acquisition formula,
  the tolerance of coincidence, the genetic search) is a parameter of the model, so that
  every result holds for each choice.
\<close>

subsection \<open>Configuration, problem definition and engine parameters\<close>

text \<open>
  Modelled from the spec: the solver's configuration is not in the notebook. These are
  the options of section 6, with the ``minimum number of consecutive iterations'' of
  section 4.6.
\<close>

record config =
  initial_sample_count :: nat
  max_iterations :: nat
  candidates_per_iteration :: nat
  population_size :: nat
  generations :: nat
  convergence_threshold :: real
  min_consecutive :: nat
  random_seed :: nat

text \<open>
  Modelled from the spec: the external black box behind the Evaluator returns objective
  and constraint values, raises, or exceeds its time bound.
\<close>

datatype blackbox_result = Returned "real list" "real list" | Raised | TimedOut

text \<open>
  Modelled from the spec: the problem definition input of section 6, as the solver sees
  it. \<open>sample\<close> is the Variable Space's sampling rule (from a generator state to a design
  point and the next state), \<open>simulate c x\<close> is the black box on its \<open>c\<close>-th call, at the
  point \<open>x\<close>, and each constraint has a comparison operator and a threshold.
\<close>

record problem =
  sample :: "nat \<Rightarrow> real list \<times> nat"
  simulate :: "nat \<Rightarrow> real list \<Rightarrow> blackbox_result"
  comparisons :: "(string \<times> real) list"
  n_objectives :: nat

text \<open>
  Modelled from the spec: a fitted Surrogate Model is its
  \<open>predict(point) -> (mean, variance)\<close>.
\<close>

type_synonym surrogate = "real list \<Rightarrow> real \<times> real"

text \<open>
  Modelled from the spec: an individual of the Population Search output, a design point
  with its surrogate-predicted objective and constraint vectors.
\<close>

record individual =
  ind_point :: "real list"
  ind_objectives :: "real list"
  ind_constraints :: "real list"

text \<open>
  Modelled from the spec: the choices that the spec leaves open, as parameters.
  \<open>regress\<close> fits a surrogate to a training set; \<open>coincident\<close> says when two points agree
  within the numerical tolerance; \<open>acquisition\<close> is the probability-of-improvement score
  of a candidate, from the surrogates and the best observed value of each objective;
  \<open>search\<close> is the genetic search over the surrogates (population size, generation
  count, generator state); \<open>cancel_requested k\<close> says whether a cancellation is observed
  at the top of the pass that follows \<open>k\<close> completed passes.
\<close>

record engine =
  regress :: "(real list \<times> real) list \<Rightarrow> surrogate"
  coincident :: "real list \<Rightarrow> real list \<Rightarrow> bool"
  acquisition :: "surrogate option list \<Rightarrow> real option list \<Rightarrow> real list \<Rightarrow> real"
  search :: "surrogate option list \<Rightarrow> nat \<Rightarrow> nat \<Rightarrow> nat \<Rightarrow> individual list"
  cancel_requested :: "nat \<Rightarrow> bool"

subsection \<open>Evaluator and Sample Archive\<close>

text \<open>
  Modelled from the spec: the Evaluator's result,
  \<open>evaluate(point) -> (objectives, constraints) | Failure\<close>.
\<close>

datatype evaluation = Values "real list" "real list" | Failure

text \<open>
  Modelled from the spec: the Evaluator (section 4.2). An error of the black box is
  reported as \<open>Failure\<close> instead of being propagated, and a timeout is treated as a
  failure.
\<close>

definition evaluate :: "problem \<Rightarrow> nat \<Rightarrow> real list \<Rightarrow> evaluation" where
  "evaluate p c x =
     (case simulate p c x of
        Returned os cs \<Rightarrow> Values os cs
      | Raised \<Rightarrow> Failure
      | TimedOut \<Rightarrow> Failure)"

text \<open>
  Modelled from the spec: the Evaluation Record (section 3): design point, objective
  vector, constraint vector, feasibility flag and failure flag.
\<close>

record evaluation_record =
  point :: "real list"
  objectives :: "real list"
  constraints :: "real list"
  feasible :: bool
  failed :: bool

text \<open>
  Modelled from the spec: the feasibility flag is true iff every constraint comparison
  holds, each constraint value against its operator and threshold.
\<close>

definition all_hold :: "(string \<times> real) list \<Rightarrow> real list \<Rightarrow> bool" where
  "all_hold cmps vs = list_all2 (\<lambda>(op, t) v. compare op v t = Inr True) cmps vs"

text \<open>
  Modelled from the spec: the record that the Refinement Loop creates after a true
  evaluation. The failure flag is true iff the Evaluator reported a failure instead of
  values; such a record carries no values.
\<close>

definition make_record :: "(string \<times> real) list \<Rightarrow> real list \<Rightarrow> evaluation \<Rightarrow> evaluation_record" where
  "make_record cmps x ev =
     (case ev of
        Values os cs \<Rightarrow>
          \<lparr>point = x, objectives = os, constraints = cs, feasible = all_hold cmps cs,
           failed = False\<rparr>
      | Failure \<Rightarrow>
          \<lparr>point = x, objectives = [], constraints = [], feasible = False, failed = True\<rparr>)"

text \<open>
  Modelled from the spec: the Sample Archive (section 3), an ordered sequence of records
  with a count of failures and a count of infeasible records.
\<close>

record sample_archive =
  records :: "evaluation_record list"
  nb_failures :: nat
  nb_infeasible :: nat

text \<open>Modelled from the spec: the archive of a run that has evaluated nothing yet.\<close>

definition empty_archive :: sample_archive where
  "empty_archive = \<lparr>records = [], nb_failures = 0, nb_infeasible = 0\<rparr>"

text \<open>
  Modelled from the spec: \<open>record(evaluation)\<close> (section 4.3) appends a record and updates
  the failure and infeasible counters.
\<close>

definition record_evaluation :: "sample_archive \<Rightarrow> evaluation_record \<Rightarrow> sample_archive" where
  "record_evaluation a r =
     \<lparr>records = records a @ [r],
      nb_failures = nb_failures a + (if failed r then 1 else 0),
      nb_infeasible = nb_infeasible a + (if \<not> failed r \<and> \<not> feasible r then 1 else 0)\<rparr>"

text \<open>
  Modelled from the spec: \<open>feasible_training_set(objective_index)\<close> (section 4.3) returns
  the ordered pairs (design point, objective value) of all feasible, non-failed records
  (that hold a value of this objective).
\<close>

definition feasible_training_set :: "sample_archive \<Rightarrow> nat \<Rightarrow> (real list \<times> real) list" where
  "feasible_training_set a k =
     map (\<lambda>r. (point r, objectives r ! k))
       (filter (\<lambda>r. feasible r \<and> \<not> failed r \<and> k < length (objectives r)) (records a))"

subsection \<open>Surrogate Model and Acquisition Strategy\<close>

text \<open>
  Modelled from the spec: \<open>fit(training_set)\<close> (section 4.4). With fewer than 2 feasible
  training points it fails with \<open>InsufficientData\<close>, here \<open>None\<close>.
\<close>

definition fit :: "engine \<Rightarrow> (real list \<times> real) list \<Rightarrow> surrogate option" where
  "fit e ts = (if length ts < 2 then None else Some (regress e ts))"

text \<open>
  Modelled from the spec: one surrogate for each objective, fitted from the archive's
  feasible training set and rebuilt in every iteration.
\<close>

definition fit_all :: "engine \<Rightarrow> sample_archive \<Rightarrow> nat \<Rightarrow> surrogate option list" where
  "fit_all e a n = map (\<lambda>k. fit e (feasible_training_set a k)) [0..<n]"

text \<open>
  Modelled from the spec: the current best observed value of an objective in the
  archive (objectives are minimized); none while nothing feasible has been observed.
\<close>

definition best_observed :: "sample_archive \<Rightarrow> nat \<Rightarrow> real option" where
  "best_observed a k =
     (case map snd (feasible_training_set a k) of
        [] \<Rightarrow> None
      | v # vs \<Rightarrow> Some (foldl min v vs))"

text \<open>
  Modelled from the spec: the acquisition score of a candidate (section 4.5). A
  candidate coincident with an existing archive point receives a score of 0.
\<close>

definition score :: "engine \<Rightarrow> surrogate option list \<Rightarrow> sample_archive \<Rightarrow> real list \<Rightarrow> real" where
  "score e surs a x =
     (if list_ex (\<lambda>r. coincident e (point r) x) (records a) then 0
      else acquisition e surs (map (best_observed a) [0..<length surs]) x)"

text \<open>
  Modelled from the spec: the total predicted variance of a candidate, over the
  objectives whose surrogate could be fitted; it breaks ties between equal scores.
\<close>

definition total_variance :: "surrogate option list \<Rightarrow> real list \<Rightarrow> real" where
  "total_variance surs x =
     sum_list (map (\<lambda>s. case s of None \<Rightarrow> 0 | Some f \<Rightarrow> snd (f x)) surs)"

text \<open>
  Modelled from the spec: the ranking of scored candidates (score, total variance,
  point). One candidate beats another on a larger score, or on a larger total variance
  when the scores tie exactly.
\<close>

definition beats :: "real \<times> real \<times> real list \<Rightarrow> real \<times> real \<times> real list \<Rightarrow> bool" where
  "beats c b = (fst c > fst b \<or> (fst c = fst b \<and> fst (snd c) > fst (snd b)))"

text \<open>Modelled from the spec: the top-scoring candidate of a non-empty pool.\<close>

definition select_top ::
  "real \<times> real \<times> real list \<Rightarrow> (real \<times> real \<times> real list) list \<Rightarrow> real \<times> real \<times> real list" where
  "select_top c cs = foldl (\<lambda>b c'. if beats c' b then c' else b) c cs"

text \<open>
  Modelled from the spec: steps (3) and (4) of an Iterating pass, on the pool \<open>x0 # xs\<close>.
  Every candidate is scored and the top-scoring one is selected, with its score as the
  best score of the pass; if fitting failed for every objective, the loop falls back to
  random selection: the first random candidate is selected and the pass has no score.
\<close>

definition select_candidate ::
  "engine \<Rightarrow> surrogate option list \<Rightarrow> sample_archive \<Rightarrow> real list \<Rightarrow> real list list
     \<Rightarrow> real list \<times> real option" where
  "select_candidate e surs a x0 xs =
     (if list_all Option.is_none surs then (x0, None)
      else
        (case select_top (score e surs a x0, total_variance surs x0, x0)
                (map (\<lambda>x. (score e surs a x, total_variance surs x, x)) xs) of
           (sc, _, x) \<Rightarrow> (x, Some sc)))"

subsection \<open>Result Aggregator\<close>

text \<open>
  Modelled from the spec: each member of the front is annotated with whether it came
  from a true evaluation or from a surrogate prediction.
\<close>

datatype origin = TrueEvaluation | SurrogatePrediction

text \<open>Modelled from the spec: a member of the combined set and of the front.\<close>

record front_member =
  member_point :: "real list"
  member_objectives :: "real list"
  member_origin :: origin

text \<open>
  Modelled from the spec: dominance (section 3 and glossary). One objective vector
  dominates another when it is better or equal on all objectives and strictly better
  on at least one; objectives are minimized.
\<close>

definition dominates :: "real list \<Rightarrow> real list \<Rightarrow> bool" where
  "dominates a b = (list_all2 (\<le>) a b \<and> list_ex (\<lambda>(x, y). x < y) (zip a b))"

text \<open>
  Modelled from the spec: the aggregator merges the true Evaluation Records of the
  archive with the surrogate-predicted Population Search output. A failed record has
  no objective vector and is left out. The true records come first.
\<close>

definition merge_records :: "sample_archive \<Rightarrow> individual list \<Rightarrow> front_member list" where
  "merge_records a pop =
     map (\<lambda>r. \<lparr>member_point = point r, member_objectives = objectives r,
               member_origin = TrueEvaluation\<rparr>)
       (filter (\<lambda>r. \<not> failed r) (records a))
     @ map (\<lambda>i. \<lparr>member_point = ind_point i, member_objectives = ind_objectives i,
                 member_origin = SurrogatePrediction\<rparr>) pop"

text \<open>
  Modelled from the spec: global Pareto dominance across the combined set. A member
  stays when no member of the set dominates it.
\<close>

definition non_dominated :: "front_member list \<Rightarrow> front_member list" where
  "non_dominated ms =
     filter (\<lambda>m. \<not> list_ex (\<lambda>n. dominates (member_objectives n) (member_objectives m)) ms) ms"

text \<open>
  Modelled from the spec: ties on identical objective vectors are deduplicated. Of the
  members with one objective vector the first is kept; with the true records first in
  the combined set, this is a true-evaluated record when one exists.
\<close>

fun dedup :: "front_member list \<Rightarrow> front_member list" where
  "dedup [] = []"
| "dedup (m # ms) = m # filter (\<lambda>n. member_objectives n \<noteq> member_objectives m) (dedup ms)"

text \<open>Modelled from the spec: the final front that the Result Aggregator returns.\<close>

definition pareto_front :: "sample_archive \<Rightarrow> individual list \<Rightarrow> front_member list" where
  "pareto_front a pop = dedup (non_dominated (merge_records a pop))"

subsection \<open>Refinement Loop\<close>

text \<open>
  Modelled from the spec: the states \<open>Seeding \<rightarrow> Iterating \<rightarrow> Converged | Exhausted\<close> of the
  Refinement Loop (section 4.6), the state \<open>Cancelled\<close> (sections 5 and 7), the
  Population Search that follows the loop, and the end of the run.
\<close>

datatype phase =
  Seeding | Iterating | Converged | Exhausted | Cancelled | PopulationSearch | Finished

text \<open>
  Modelled from the spec: what a run owns. The archive, the state of the random
  generator, the number of Evaluator calls made, the number of Iterating passes
  executed, the number of consecutive passes whose best score was below the threshold,
  the trace of the best acquisition score of each pass (none for a pass that fell back
  to random selection), the output of the Population Search, the front, and the history
  of the phases the run went through (one \<open>Iterating\<close> for each pass).
\<close>

record run_state =
  phase :: phase
  archive :: sample_archive
  generator :: nat
  calls :: nat
  passes :: nat
  streak :: nat
  trace :: "real option list"
  population :: "individual list"
  front :: "front_member list"
  history :: "phase list"

text \<open>Modelled from the spec: a run starts in \<open>Seeding\<close>, with an empty archive.\<close>

definition initial :: "config \<Rightarrow> run_state" where
  "initial cfg =
     \<lparr>phase = Seeding, archive = empty_archive, generator = random_seed cfg, calls = 0,
      passes = 0, streak = 0, trace = [], population = [], front = [],
      history = [Seeding]\<rparr>"

text \<open>
  Modelled from the spec: one true evaluation. The Evaluator is called and whatever it
  reports, values or a failure, is appended to the archive; a failure is recorded and
  counted, and never aborts.
\<close>

definition evaluate_and_record :: "problem \<Rightarrow> run_state \<Rightarrow> real list \<Rightarrow> run_state" where
  "evaluate_and_record p st x =
     st\<lparr>calls := Suc (calls st),
        archive :=
          record_evaluation (archive st)
            (make_record (comparisons p) x (evaluate p (Suc (calls st)) x))\<rparr>"

text \<open>
  Modelled from the spec: \<open>n\<close> design points drawn by the Variable Space's sampling rule,
  one after the other.
\<close>

fun draw :: "(nat \<Rightarrow> real list \<times> nat) \<Rightarrow> nat \<Rightarrow> nat \<Rightarrow> real list list \<times> nat" where
  "draw smp 0 gen = ([], gen)"
| "draw smp (Suc n) gen =
     (case smp gen of (x, gen') \<Rightarrow>
        (case draw smp n gen' of (xs, gen'') \<Rightarrow> (x # xs, gen'')))"

text \<open>
  Modelled from the spec: Seeding draws the initial batch, evaluates all of it through
  the Evaluator, records it, and goes to Iterating unconditionally.
\<close>

definition seeding :: "config \<Rightarrow> problem \<Rightarrow> run_state \<Rightarrow> run_state" where
  "seeding cfg p st =
     (case draw (sample p) (initial_sample_count cfg) (generator st) of (xs, gen) \<Rightarrow>
        (foldl (evaluate_and_record p) (st\<lparr>generator := gen\<rparr>) xs)\<lparr>phase := Iterating\<rparr>)"

text \<open>
  Modelled from the spec: one Iterating pass. (1) Fit one surrogate for each objective
  from the feasible training sets. (2) Generate the candidate pool by the sampling rule,
  of the configured size and of one candidate at least. (3) Score every candidate and
  (4) select the top-scoring one, or fall back to a random one. (5) Evaluate the
  selected candidate and append the record. (6) Log the best score. The loop is
  Converged once the best score has been below the threshold in the last
  \<open>min_consecutive\<close> passes, this pass among them.
\<close>

definition iterating_pass :: "config \<Rightarrow> problem \<Rightarrow> engine \<Rightarrow> run_state \<Rightarrow> run_state" where
  "iterating_pass cfg p e st =
     (let surs = fit_all e (archive st) (n_objectives p) in
      case sample p (generator st) of (x0, gen0) \<Rightarrow>
      case draw (sample p) (candidates_per_iteration cfg - 1) gen0 of (xs, gen) \<Rightarrow>
      case select_candidate e surs (archive st) x0 xs of (x, best) \<Rightarrow>
        (let k = (case best of
                    None \<Rightarrow> 0
                  | Some b \<Rightarrow> if b < convergence_threshold cfg then Suc (streak st) else 0);
             conv = (0 < k \<and> min_consecutive cfg \<le> k)
         in (evaluate_and_record p (st\<lparr>generator := gen\<rparr>) x)
              \<lparr>passes := Suc (passes st), streak := k, trace := trace st @ [best],
               phase := (if conv then Converged else Iterating),
               history := history st @ (if conv then [Iterating, Converged] else [Iterating])\<rparr>))"

text \<open>
  Modelled from the spec: one transition of the run. A cancellation is checked at the
  top of each Iterating pass, then the iteration budget; an exhausted budget is the
  terminal state \<open>Exhausted\<close> of the loop. From \<open>Converged\<close> and from \<open>Exhausted\<close> alike the
  run proceeds to the Population Search, which runs on surrogates fitted to the final
  archive, and the aggregator computes the front. A cancelled run ends with the front
  of what has been evaluated so far.
\<close>

definition step :: "config \<Rightarrow> problem \<Rightarrow> engine \<Rightarrow> run_state \<Rightarrow> run_state" where
  "step cfg p e st =
     (case phase st of
        Seeding \<Rightarrow> seeding cfg p st
      | Iterating \<Rightarrow>
          (if cancel_requested e (passes st) then
             st\<lparr>phase := Cancelled, history := history st @ [Cancelled]\<rparr>
           else if max_iterations cfg \<le> passes st then
             st\<lparr>phase := Exhausted, history := history st @ [Exhausted]\<rparr>
           else iterating_pass cfg p e st)
      | Converged \<Rightarrow> st\<lparr>phase := PopulationSearch, history := history st @ [PopulationSearch]\<rparr>
      | Exhausted \<Rightarrow> st\<lparr>phase := PopulationSearch, history := history st @ [PopulationSearch]\<rparr>
      | Cancelled \<Rightarrow> st\<lparr>phase := Finished, front := pareto_front (archive st) []\<rparr>
      | PopulationSearch \<Rightarrow>
          (let pop = search e (fit_all e (archive st) (n_objectives p))
                       (population_size cfg) (generations cfg) (generator st)
           in st\<lparr>phase := Finished, population := pop,
                 front := pareto_front (archive st) pop\<rparr>)
      | Finished \<Rightarrow> st)"

text \<open>
  The distance of a state from the end of its run: it decreases with every transition,
  so a run is finite.
\<close>

definition remaining :: "config \<Rightarrow> run_state \<Rightarrow> nat" where
  "remaining cfg st =
     (case phase st of
        Seeding \<Rightarrow> max_iterations cfg + 5
      | Iterating \<Rightarrow> (max_iterations cfg - passes st) + 4
      | Converged \<Rightarrow> 3
      | Exhausted \<Rightarrow> 3
      | Cancelled \<Rightarrow> 1
      | PopulationSearch \<Rightarrow> 1
      | Finished \<Rightarrow> 0)"

text \<open>Modelled from the spec: the run takes transitions until it is finished.\<close>

function run :: "config \<Rightarrow> problem \<Rightarrow> engine \<Rightarrow> run_state \<Rightarrow> run_state" where
  "run cfg p e st = (if phase st = Finished then st else run cfg p e (step cfg p e st))"
  by pat_completeness auto
termination
proof (relation "measure (\<lambda>(cfg, p, e, st). remaining cfg st)")
  show "wf (measure (\<lambda>(cfg, p, e, st). remaining cfg st))" by simp
next
  fix cfg :: config and p :: problem and e :: engine and st :: run_state
  assume nf: "phase st \<noteq> Finished"
  have sd: "phase (seeding cfg p st) = Iterating"
    by (simp add: seeding_def split: prod.splits)
  have ip: "phase st = Iterating \<Longrightarrow> passes st < max_iterations cfg \<Longrightarrow>
            remaining cfg (iterating_pass cfg p e st) < remaining cfg st"
    by (auto simp: iterating_pass_def evaluate_and_record_def remaining_def Let_def
        split: prod.splits)
  have "remaining cfg (step cfg p e st) < remaining cfg st"
  proof (cases "phase st")
    case Seeding
    then show ?thesis using sd by (simp add: step_def remaining_def)
  next
    case Iterating
    then show ?thesis using ip by (simp add: step_def remaining_def not_le)
  qed (use nf in \<open>simp_all add: step_def remaining_def Let_def\<close>)
  then show "((cfg, p, e, step cfg p e st), (cfg, p, e, st))
               \<in> measure (\<lambda>(cfg, p, e, st). remaining cfg st)"
    by simp
qed

text \<open>
  Modelled from the spec: an optimization run, from its initial state to its end. The
  final state holds the run output of section 6: the front, the archive with its failure
  and infeasible counts, and the trace of best scores.
\<close>

definition solve :: "config \<Rightarrow> problem \<Rightarrow> engine \<Rightarrow> run_state" where
  "solve cfg p e = run cfg p e (initial cfg)"

subsection \<open>Invariants of a run\<close>

text \<open>
  The history of a run records its phases in order: \<open>Seeding\<close>, one \<open>Iterating\<close> for each
  pass, never more passes than the budget, then the terminal state of the loop and,
  unless the run was cancelled, the Population Search.
\<close>

definition history_ok :: "config \<Rightarrow> engine \<Rightarrow> run_state \<Rightarrow> bool" where
  "history_ok cfg e st =
     (passes st \<le> max_iterations cfg \<and> length (trace st) = passes st \<and>
      (let h = Seeding # replicate (passes st) Iterating in
       case phase st of
         Seeding \<Rightarrow> passes st = 0 \<and> history st = [Seeding]
       | Iterating \<Rightarrow> history st = h
       | Converged \<Rightarrow> history st = h @ [Converged]
       | Exhausted \<Rightarrow> passes st = max_iterations cfg \<and> history st = h @ [Exhausted]
       | Cancelled \<Rightarrow> cancel_requested e (passes st) \<and> history st = h @ [Cancelled]
       | PopulationSearch \<Rightarrow>
           history st = h @ [Converged, PopulationSearch]
           \<or> (passes st = max_iterations cfg \<and> history st = h @ [Exhausted, PopulationSearch])
       | Finished \<Rightarrow>
           history st = h @ [Converged, PopulationSearch]
           \<or> (passes st = max_iterations cfg \<and> history st = h @ [Exhausted, PopulationSearch])
           \<or> (cancel_requested e (passes st) \<and> history st = h @ [Cancelled])))"

text \<open>
  The archive holds one record for each Evaluator call, in the order of the calls; the
  record of a call is marked failed iff the Evaluator failed on that call, and the
  failure counter counts the failed records.
\<close>

definition archive_ok :: "problem \<Rightarrow> run_state \<Rightarrow> bool" where
  "archive_ok p st =
     (length (records (archive st)) = calls st \<and>
      nb_failures (archive st) = length (filter failed (records (archive st))) \<and>
      (\<forall>i < calls st.
          failed (records (archive st) ! i)
            = (evaluate p (Suc i) (point (records (archive st) ! i)) = Failure)))"

text \<open>After Seeding, the whole initial batch has been evaluated.\<close>

definition seeded :: "config \<Rightarrow> run_state \<Rightarrow> bool" where
  "seeded cfg st = (phase st = Seeding \<or> initial_sample_count cfg \<le> calls st)"

text \<open>The front of a finished run is the aggregator's, over its archive and population.\<close>

definition front_ok :: "run_state \<Rightarrow> bool" where
  "front_ok st =
     (if phase st = Finished then front st = pareto_front (archive st) (population st)
      else population st = [])"

subsection \<open>A small run\<close>

text \<open>
  A run of the engine on one variable, with the objectives \<open>f1(x) = x[0]\<close> and
  \<open>f2(x) = 1 - x[0]\<^sup>2\<close> of the spec's end-to-end scenario and an Evaluator that fails on
  exactly every third call: 3 initial samples, a budget of 2 iterations, pools of 2
  candidates. The generator counts up and the \<open>k\<close>-th point drawn is \<open>[(k mod 10) / 10]\<close>;
  the surrogate, the acquisition score and the population are constants.
\<close>

definition demo_config :: config where
  "demo_config =
     \<lparr>initial_sample_count = 3, max_iterations = 2, candidates_per_iteration = 2,
      population_size = 3, generations = 1, convergence_threshold = 1 / 10,
      min_consecutive = 2, random_seed = 0\<rparr>"

definition demo_problem :: problem where
  "demo_problem =
     \<lparr>sample = (\<lambda>gen. ([real (gen mod 10) / 10], Suc gen)),
      simulate = (\<lambda>c x. if c mod 3 = 0 then Raised
                         else Returned (case x of [] \<Rightarrow> [0, 1] | v # _ \<Rightarrow> [v, 1 - v * v]) []),
      comparisons = [],
      n_objectives = 2\<rparr>"

definition demo_engine :: engine where
  "demo_engine =
     \<lparr>regress = (\<lambda>ts x. (0, 1)),
      coincident = (\<lambda>a b. a = b),
      acquisition = (\<lambda>surs best x. 1 / 2),
      search = (\<lambda>surs n gens gen.
                  [\<lparr>ind_point = [1 / 2], ind_objectives = [1 / 2, 3 / 4], ind_constraints = []\<rparr>,
                   \<lparr>ind_point = [0], ind_objectives = [0, 1], ind_constraints = []\<rparr>,
                   \<lparr>ind_point = [1], ind_objectives = [1, 1], ind_constraints = []\<rparr>]),
      cancel_requested = (\<lambda>k. False)\<rparr>"

text \<open>The front of the small run: four true evaluations.\<close>

definition demo_front :: "front_member list" where
  "demo_front =
     [\<lparr>member_point = [0], member_objectives = [0, 1], member_origin = TrueEvaluation\<rparr>,
      \<lparr>member_point = [1 / 10], member_objectives = [1 / 10, 99 / 100],
       member_origin = TrueEvaluation\<rparr>,
      \<lparr>member_point = [3 / 10], member_objectives = [3 / 10, 91 / 100],
       member_origin = TrueEvaluation\<rparr>,
      \<lparr>member_point = [1 / 2], member_objectives = [1 / 2, 3 / 4],
       member_origin = TrueEvaluation\<rparr>]"

section \<open>Properties of the tutorial's problem definition\<close>

declare str.simps [simp del]

subsection \<open>The setters\<close>

lemma norm_index_nonneg: "0 \<le> i \<Longrightarrow> i < int n \<Longrightarrow> norm_index i n = Inr (nat i)"
  by (simp add: norm_index_def)

text \<open>
  Claim C8. For a design-variable index \<open>i\<close> (inside the array) and every value \<open>v\<close>,
  the setter made by \<open>gen_setter i\<close> succeeds and changes the store in one slot only: the
  array behind \<^verbatim>\<open>simu.input.Ir.value\<close> keeps its length, holds \<open>v\<close> at index \<open>i\<close> and its
  old value at every other index, and every other object of the store is untouched. The
  simulation object itself is only read.
\<close>

theorem gen_setter_frame:
  assumes "0 \<le> i" and "i < int (length (s (val (Ir (input sim)))))"
  shows "\<exists>s'. gen_setter i sim v s = Inr s'
           \<and> (\<forall>b. b \<noteq> val (Ir (input sim)) \<longrightarrow> s' b = s b)
           \<and> length (s' (val (Ir (input sim)))) = length (s (val (Ir (input sim))))
           \<and> s' (val (Ir (input sim))) ! nat i = v
           \<and> (\<forall>k. k \<noteq> nat i \<longrightarrow>
                  s' (val (Ir (input sim))) ! k = s (val (Ir (input sim))) ! k)"
  using assms by (simp add: gen_setter_def norm_index_nonneg Let_def)

theorem gen_setter_frame_witness:
  "(0::int) \<le> 3 \<and> (3::int) < int (length (store0 (val (Ir (input (simu_ref 0))))))
   \<and> (\<exists>s'. gen_setter 3 (simu_ref 0) (1/2) store0 = Inr s'
        \<and> s' 1 = store0 1 \<and> length (s' 0) = 30 \<and> s' 0 ! 3 = 1/2 \<and> s' 0 ! 4 = 0)"
proof -
  have h1: "(0::int) \<le> 3" by simp
  have h2: "(3::int) < int (length (store0 (val (Ir (input (simu_ref 0))))))"
    by (simp add: store0_def zeros_def)
  from gen_setter_frame [of 3 store0 "simu_ref 0" "1/2", OF h1 h2]
  obtain s' where s: "gen_setter 3 (simu_ref 0) (1/2) store0 = Inr s'"
    and f: "\<forall>b. b \<noteq> val (Ir (input (simu_ref 0))) \<longrightarrow> s' b = store0 b"
    and l: "length (s' (val (Ir (input (simu_ref 0)))))
              = length (store0 (val (Ir (input (simu_ref 0)))))"
    and v: "s' (val (Ir (input (simu_ref 0)))) ! nat 3 = 1/2"
    and k: "\<forall>k. k \<noteq> nat 3 \<longrightarrow>
              s' (val (Ir (input (simu_ref 0)))) ! k = store0 (val (Ir (input (simu_ref 0)))) ! k"
    by blast
  have a: "val (Ir (input (simu_ref 0))) = 0" by (simp add: simu_ref_def)
  from f a have "s' 1 = store0 1" by simp
  moreover from l a have "length (s' 0) = 30" by (simp add: store0_def zeros_def)
  moreover from v a have "s' 0 ! 3 = 1/2" by simp
  moreover from k a have "s' 0 ! 4 = 0" by (simp add: store0_def zeros_def)
  ultimately show ?thesis using h1 h2 s by blast
qed

subsection \<open>The evaluation function on the declared space\<close>

lemma g_ge_1:
  assumes "\<forall>v \<in> set x. 0 \<le> v"
  shows "1 \<le> g x"
proof -
  have "\<forall>v \<in> set (drop 1 x). 0 \<le> v" using assms by (meson in_set_dropD)
  then have "0 \<le> sum_list (drop 1 x)" by (simp add: sum_list_nonneg)
  then show ?thesis by (simp add: g_def)
qed

lemma f1_nth: "x \<noteq> [] \<Longrightarrow> f1 x = Inr (x ! 0)"
  by (cases x) (simp_all add: f1_def)

lemma ratio_bounds:
  assumes "0 \<le> a" and "a \<le> 1" and "1 \<le> (b::real)"
  shows "0 \<le> a / b \<and> a / b \<le> 1"
  using assms by (simp add: divide_le_eq)

lemma h_defined:
  "0 \<le> a \<Longrightarrow> 1 \<le> b \<Longrightarrow> h a b = Inr (1 - sqrt (a / b) - (a / b) * sin (10 * pi * a))"
  by (simp add: h_def not_less)

lemma g_zeros: "g (zeros 30) = 1"
  by (simp add: g_def zeros_def sum_list_replicate)

text \<open>
  Claim C9. On a design point \<open>x\<close> of 30 components, all in \<open>[0, 1]\<close>, the evaluation is
  well defined: \<open>g x \<ge> 1\<close>, so the divisor is not zero, \<open>f1 / g\<close> lies in \<open>[0, 1]\<close>, so the
  radicand is not negative, and \<open>evaluate_fct\<close> returns normally, writing the two
  (finite) values to \<^verbatim>\<open>Tem_av\<close> and \<^verbatim>\<open>Tem_rip_norm\<close>.
\<close>

theorem evaluate_fct_total:
  assumes len: "length x = 30"
    and dom: "\<forall>v \<in> set x. 0 \<le> v \<and> v \<le> 1"
    and arr: "s (val (Ir (input (simu out)))) = x"
  shows "1 \<le> g x \<and> g x \<noteq> 0 \<and> 0 \<le> x ! 0 / g x \<and> x ! 0 / g x \<le> 1
         \<and> f1 x = Inr (x ! 0)
         \<and> h (x ! 0) (g x) = Inr (1 - sqrt (x ! 0 / g x) - (x ! 0 / g x) * sin (10 * pi * x ! 0))
         \<and> evaluate_fct s out =
             Inr (out\<lparr>mag := (mag out)
                    \<lparr>Tem_av := Some (x ! 0),
                     Tem_rip_norm :=
                       Some (g x * (1 - sqrt (x ! 0 / g x)
                                      - (x ! 0 / g x) * sin (10 * pi * x ! 0)))\<rparr>\<rparr>)"
proof -
  from len have ne: "x \<noteq> []" by auto
  from dom have g1: "1 \<le> g x" by (simp add: g_ge_1)
  from ne have "x ! 0 \<in> set x" by simp
  with dom have x0: "0 \<le> x ! 0" "x ! 0 \<le> 1" by auto
  from x0 g1 have r: "0 \<le> x ! 0 / g x \<and> x ! 0 / g x \<le> 1" by (rule ratio_bounds)
  have f: "f1 x = Inr (x ! 0)" using ne by (rule f1_nth)
  have hh: "h (x ! 0) (g x)
              = Inr (1 - sqrt (x ! 0 / g x) - (x ! 0 / g x) * sin (10 * pi * x ! 0))"
    using x0(1) g1 by (rule h_defined)
  have e: "evaluate_fct s out =
             Inr (out\<lparr>mag := (mag out)
                    \<lparr>Tem_av := Some (x ! 0),
                     Tem_rip_norm :=
                       Some (g x * (1 - sqrt (x ! 0 / g x)
                                      - (x ! 0 / g x) * sin (10 * pi * x ! 0)))\<rparr>\<rparr>)"
    by (simp add: evaluate_fct_def arr f hh)
  from g1 have "g x \<noteq> 0" by simp
  with g1 r f hh e show ?thesis by blast
qed

theorem evaluate_fct_total_witness:
  "length (zeros 30) = 30
   \<and> g (zeros 30) = 1
   \<and> evaluate_fct store0 (out0 None) =
       Inr \<lparr>simu = simu_ref 0,
            mag = \<lparr>Tem_av = Some 0, Tem_rip_norm = Some 1, Tem_rip_pp = None\<rparr>\<rparr>"
proof -
  have len: "length (zeros 30) = 30" by (simp add: zeros_def)
  have dom: "\<forall>v \<in> set (zeros 30). 0 \<le> v \<and> v \<le> 1" by (simp add: zeros_def)
  have arr: "store0 (val (Ir (input (simu (out0 None))))) = zeros 30" by (simp add: store0_def)
  have z: "zeros 30 ! 0 = 0" by (simp add: zeros_def)
  from evaluate_fct_total [of "zeros 30" store0 "out0 None", OF len dom arr]
  show ?thesis using len by (simp add: z g_zeros out0_def)
qed

subsection \<open>Sampling stays inside the declared domains\<close>

lemma uniform_bounds:
  assumes "0 \<le> u" and "u < 1" and "lo \<le> hi"
  shows "lo \<le> uniform lo hi u \<and> uniform lo hi u \<le> hi"
proof -
  have a: "0 \<le> (hi - lo) * u" using assms by simp
  have "(hi - lo) * u \<le> (hi - lo) * 1"
    using assms by (intro mult_left_mono) simp_all
  with a show ?thesis by (simp add: uniform_def)
qed

lemma get_value_in_domain:
  assumes "0 \<le> u" and "u < 1"
    and "type_var d = ''interval''" and "get_value d = get_value_uniform"
    and "space d = [lo, hi]" and "lo \<le> hi"
  shows "get_value d (space d) u = Inr (uniform lo hi u) \<and> in_domain d (uniform lo hi u)"
  using assms uniform_bounds [of u lo hi]
  by (simp add: get_value_uniform_def in_domain_def)

lemma sample_point_in_domain:
  assumes draws: "\<forall>k. 0 \<le> rng k \<and> rng k < 1"
    and vars: "\<forall>d \<in> set ds. type_var d = ''interval'' \<and> get_value d = get_value_uniform
                 \<and> (\<exists>lo hi. space d = [lo, hi] \<and> lo \<le> hi)"
  shows "\<exists>p. sample_point ds rng k = Inr p \<and> list_all2 in_domain ds p"
  using vars
proof (induction ds arbitrary: k)
  case Nil
  then show ?case by simp
next
  case (Cons d ds)
  then obtain lo hi where sp: "space d = [lo, hi]" and le: "lo \<le> hi"
    and tv: "type_var d = ''interval''" and gv: "get_value d = get_value_uniform"
    by auto
  from Cons obtain p where p: "sample_point ds rng (Suc k) = Inr p" "list_all2 in_domain ds p"
    by fastforce
  from draws have "0 \<le> rng k" "rng k < 1" by auto
  then have "get_value d (space d) (rng k) = Inr (uniform lo hi (rng k))
             \<and> in_domain d (uniform lo hi (rng k))"
    using tv gv sp le by (rule get_value_in_domain)
  then show ?case using p by simp
qed

lemma sample_from_in_domain:
  assumes draws: "\<forall>k. 0 \<le> rng k \<and> rng k < 1"
    and vars: "\<forall>d \<in> set ds. type_var d = ''interval'' \<and> get_value d = get_value_uniform
                 \<and> (\<exists>lo hi. space d = [lo, hi] \<and> lo \<le> hi)"
  shows "\<exists>pts. sample_from n ds rng k = Inr pts \<and> length pts = n
           \<and> (\<forall>p \<in> set pts. list_all2 in_domain ds p)"
proof (induction n arbitrary: k)
  case 0
  then show ?case by simp
next
  case (Suc n)
  from sample_point_in_domain [OF draws vars]
  obtain p where p: "sample_point ds rng k = Inr p" "list_all2 in_domain ds p" by blast
  from Suc obtain pts where "sample_from n ds rng (k + length ds) = Inr pts" "length pts = n"
    "\<forall>p \<in> set pts. list_all2 in_domain ds p" by blast
  with p show ?case by simp
qed

lemma my_vars_uniform:
  "\<forall>d \<in> set my_vars. type_var d = ''interval'' \<and> get_value d = get_value_uniform
      \<and> (\<exists>lo hi. space d = [lo, hi] \<and> lo \<le> hi)"
  by (auto simp: my_vars_def)

lemma length_my_vars: "length my_vars = 30"
  by (simp add: my_vars_def)

lemma my_vars_domain:
  assumes "list_all2 in_domain my_vars p"
  shows "length p = 30 \<and> (\<forall>v \<in> set p. 0 \<le> v \<and> v \<le> 1)"
proof -
  from assms have l: "length p = 30" using length_my_vars by (auto dest: list_all2_lengthD)
  have "0 \<le> v \<and> v \<le> 1" if "v \<in> set p" for v
  proof -
    from that obtain j where j: "j < length p" "p ! j = v" by (auto simp: in_set_conv_nth)
    with assms l have "in_domain (my_vars ! j) v" by (auto dest: list_all2_nthD2)
    moreover have "space (my_vars ! j) = [0, 1]" "type_var (my_vars ! j) = ''interval''"
      using j l by (simp_all add: my_vars_def)
    ultimately show ?thesis by (simp add: in_domain_def)
  qed
  with l show ?thesis by blast
qed

lemma bind_point_setters:
  assumes mk: "\<forall>i. setter (mk i) = gen_setter (int i)"
    and b: "val (Ir (input sim)) = b"
  shows "length (s b) = n \<Longrightarrow> k + length vs = n \<Longrightarrow>
         bind_point (map mk [k..<n]) sim vs s = Inr (s(b := take k (s b) @ vs))"
proof (induction vs arbitrary: k s)
  case Nil
  then show ?case by simp
next
  case (Cons v vs)
  then have kn: "k < n" by simp
  then have up: "[k..<n] = k # [Suc k..<n]" by (rule upt_conv_Cons)
  let ?s1 = "s(b := (s b)[k := v])"
  have set: "setter (mk k) sim v s = Inr ?s1"
    using mk b kn Cons.prems(1) by (simp add: gen_setter_def norm_index_nonneg)
  have len: "length (?s1 b) = n" using Cons.prems(1) by simp
  have ih: "bind_point (map mk [Suc k..<n]) sim vs ?s1
              = Inr (?s1(b := take (Suc k) (?s1 b) @ vs))"
    using len Cons.prems(2) by (intro Cons.IH) simp_all
  have tk: "take (Suc k) (?s1 b) = take k (s b) @ [v]"
    using kn Cons.prems(1) by (simp add: take_Suc_conv_app_nth)
  have st: "?s1(b := take (Suc k) (?s1 b) @ vs) = s(b := take k (s b) @ v # vs)"
    unfolding tk by simp
  have "bind_point (map mk [k..<n]) sim (v # vs) s
          = bind_point (map mk [Suc k..<n]) sim vs ?s1"
    unfolding up by (simp add: set)
  then show ?case unfolding ih st .
qed

lemma evaluate_fct_defined:
  assumes "length x = 30" and "\<forall>v \<in> set x. 0 \<le> v \<and> v \<le> 1"
    and "s (val (Ir (input (simu out)))) = x"
  shows "\<exists>out'. evaluate_fct s out = Inr out' \<and> simu out' = simu out
           \<and> Tem_av (mag out') = Some (x ! 0)"
proof -
  from assms(1) have ne: "x \<noteq> []" by auto
  from assms(2) have g1: "1 \<le> g x" by (simp add: g_ge_1)
  from ne have "x ! 0 \<in> set x" by simp
  with assms(2) have x0: "0 \<le> x ! 0" by auto
  have f: "f1 x = Inr (x ! 0)" using ne by (rule f1_nth)
  have hh: "h (x ! 0) (g x)
              = Inr (1 - sqrt (x ! 0 / g x) - (x ! 0 / g x) * sin (10 * pi * x ! 0))"
    using x0 g1 by (rule h_defined)
  show ?thesis by (simp add: evaluate_fct_def assms(3) f hh)
qed

lemma evaluate_point_my_prob:
  assumes ref: "length (s (val (Ir (input (prob_simu (my_prob a)))))) = 30"
    and len: "length x = 30" and dom: "\<forall>v \<in> set x. 0 \<le> v \<and> v \<le> 1"
  shows "\<exists>s' out'. evaluate_point (my_prob a) b s x = Inr (s', out')
           \<and> s' (val (Ir (input (simu out')))) = x
           \<and> (\<forall>c. c \<noteq> b \<longrightarrow> s' c = s c)
           \<and> Tem_av (mag out') = Some (x ! 0)"
proof -
  let ?sim = "(simu_ref a)\<lparr>input := (input (simu_ref a))\<lparr>Ir := (Ir (input (simu_ref a)))\<lparr>val := b\<rparr>\<rparr>\<rparr>"
  let ?s0 = "s(b := s a)"
  have cp: "copy_simu (prob_simu (my_prob a)) b s = (?sim, ?s0)"
    by (simp add: copy_simu_def my_prob_def simu_ref_def)
  have vb: "val (Ir (input ?sim)) = b" by simp
  from ref have l0: "length (?s0 b) = 30" by (simp add: my_prob_def simu_ref_def)
  let ?mk = "\<lambda>i. \<lparr>var_name = ''Ir('' @ str i @ '')'', var_symbol = ''var_'' @ str i,
               type_var = ''interval'', space = [0, 1],
               get_value = get_value_uniform, setter = gen_setter (int i)\<rparr>"
  have "bind_point (map ?mk [0..<30]) ?sim x ?s0 = Inr (?s0(b := take 0 (?s0 b) @ x))"
    using l0 len by (intro bind_point_setters [where b = b]) simp_all
  then have bd: "bind_point (design_var (my_prob a)) ?sim x ?s0 = Inr (s(b := x))"
    by (simp add: my_prob_def my_vars_def)
  let ?out = "\<lparr>simu = ?sim, mag = \<lparr>Tem_av = None, Tem_rip_norm = None, Tem_rip_pp = None\<rparr>\<rparr>"
  have "(s(b := x)) (val (Ir (input (simu ?out)))) = x" by simp
  with len dom obtain out' where ev: "evaluate_fct (s(b := x)) ?out = Inr out'"
    and sm: "simu out' = simu ?out" and av: "Tem_av (mag out') = Some (x ! 0)"
    using evaluate_fct_defined [of x "s(b := x)" ?out] by blast
  have "evaluate_point (my_prob a) b s x = Inr (s(b := x), out')"
    using ev by (simp add: evaluate_point_def cp bd) (simp add: my_prob_def)
  moreover have "(s(b := x)) (val (Ir (input (simu out')))) = x" by (simp add: sm)
  ultimately show ?thesis using av by auto
qed

lemma in_domain_bounds:
  assumes "list_all2 in_domain ds p"
    and "\<forall>d \<in> set ds. type_var d = ''interval''"
  shows "\<forall>i < length ds. \<forall>lo hi. space (ds ! i) = [lo, hi] \<longrightarrow> lo \<le> p ! i \<and> p ! i \<le> hi"
proof (intro allI impI)
  fix i lo hi
  assume i: "i < length ds" and sp: "space (ds ! i) = [lo, hi]"
  from assms(1) i have "in_domain (ds ! i) (p ! i)" by (rule list_all2_nthD)
  moreover from assms(2) i have "type_var (ds ! i) = ''interval''" by simp
  ultimately show "lo \<le> p ! i \<and> p ! i \<le> hi" by (simp add: in_domain_def sp)
qed

text \<open>
  Claim C4. With the generator's draws in \<open>[0, 1)\<close>, sampling never fails and every
  design point it produces, in the initial batch (position \<open>k = 0\<close>) or in a later
  candidate pool (a later position), lies inside the declared domains: for all interval
  variables sampled by the uniform draw over their space \<open>[lo, hi]\<close> with \<open>lo \<le> hi\<close>,
  component \<open>i\<close> of each point lies between the bounds of variable \<open>i\<close>. In particular,
  each point sampled for the tutorial's 30 variables has 30 components \<open>v\<close> with
  \<open>0 \<le> v \<le> 1\<close>; and when such a point is evaluated (the reference array holding 30
  entries), binding and evaluation succeed and the array that the evaluation function
  reads is that same point: what reaches the evaluation is inside the bounds.
\<close>

theorem sampling_in_domain:
  assumes draws: "\<forall>k. 0 \<le> rng k \<and> rng k < 1"
    and vars: "\<forall>d \<in> set ds. type_var d = ''interval'' \<and> get_value d = get_value_uniform
                 \<and> (\<exists>lo hi. space d = [lo, hi] \<and> lo \<le> hi)"
    and ref: "length (s (val (Ir (input (prob_simu (my_prob a)))))) = 30"
  shows "(\<exists>pts. sample_from n ds rng k = Inr pts \<and> length pts = n
            \<and> (\<forall>p \<in> set pts. list_all2 in_domain ds p
                   \<and> (\<forall>i < length ds. \<forall>lo hi. space (ds ! i) = [lo, hi]
                          \<longrightarrow> lo \<le> p ! i \<and> p ! i \<le> hi)))
         \<and> (\<exists>pts. sample_from n my_vars rng k = Inr pts \<and> length pts = n
              \<and> (\<forall>p \<in> set pts. length p = 30 \<and> list_all2 in_domain my_vars p
                     \<and> (\<forall>v \<in> set p. 0 \<le> v \<and> v \<le> 1)
                     \<and> (\<exists>s' out'. evaluate_point (my_prob a) b s p = Inr (s', out')
                            \<and> s' (val (Ir (input (simu out')))) = p)))"
proof -
  from sample_from_in_domain [OF draws vars]
  obtain pts where pts: "sample_from n ds rng k = Inr pts" "length pts = n"
    "\<forall>p \<in> set pts. list_all2 in_domain ds p" by blast
  from vars have iv: "\<forall>d \<in> set ds. type_var d = ''interval''" by blast
  have "\<forall>p \<in> set pts. list_all2 in_domain ds p
           \<and> (\<forall>i < length ds. \<forall>lo hi. space (ds ! i) = [lo, hi]
                  \<longrightarrow> lo \<le> p ! i \<and> p ! i \<le> hi)"
    using pts(3) in_domain_bounds [OF _ iv] by blast
  with pts have general: "\<exists>pts. sample_from n ds rng k = Inr pts \<and> length pts = n
            \<and> (\<forall>p \<in> set pts. list_all2 in_domain ds p
                   \<and> (\<forall>i < length ds. \<forall>lo hi. space (ds ! i) = [lo, hi]
                          \<longrightarrow> lo \<le> p ! i \<and> p ! i \<le> hi))"
    by blast
  from sample_from_in_domain [OF draws my_vars_uniform]
  obtain qs where qs: "sample_from n my_vars rng k = Inr qs" "length qs = n"
    "\<forall>p \<in> set qs. list_all2 in_domain my_vars p" by blast
  have "length p = 30 \<and> list_all2 in_domain my_vars p \<and> (\<forall>v \<in> set p. 0 \<le> v \<and> v \<le> 1)
          \<and> (\<exists>s' out'. evaluate_point (my_prob a) b s p = Inr (s', out')
                 \<and> s' (val (Ir (input (simu out')))) = p)"
    if "p \<in> set qs" for p
  proof -
    from that qs(3) have d: "list_all2 in_domain my_vars p" by blast
    then have l: "length p = 30" and bd: "\<forall>v \<in> set p. 0 \<le> v \<and> v \<le> 1"
      using my_vars_domain by blast+
    from evaluate_point_my_prob [where s = s and a = a and x = p and b = b, OF ref l bd] d l bd
    show ?thesis by blast
  qed
  with qs(1,2) have "\<exists>pts. sample_from n my_vars rng k = Inr pts \<and> length pts = n
              \<and> (\<forall>p \<in> set pts. length p = 30 \<and> list_all2 in_domain my_vars p
                     \<and> (\<forall>v \<in> set p. 0 \<le> v \<and> v \<le> 1)
                     \<and> (\<exists>s' out'. evaluate_point (my_prob a) b s p = Inr (s', out')
                            \<and> s' (val (Ir (input (simu out')))) = p))"
    by blast
  with general show ?thesis by blast
qed

lemma sample_demo_vars: "sample_from 1 demo_vars half_draws 0 = Inr [[7 / 2, 0]]"
  by code_simp

lemma sample_half: "sample_from 1 my_vars half_draws 0 = Inr [replicate 30 (1 / 2)]"
  by code_simp

theorem sampling_in_domain_witness:
  "(\<forall>k. 0 \<le> half_draws k \<and> half_draws k < 1)
   \<and> length (store0 (val (Ir (input (prob_simu (my_prob 0)))))) = 30
   \<and> map space demo_vars = [[2, 5], [-1, 1]]
   \<and> sample_from 1 demo_vars half_draws 0 = Inr [[7 / 2, 0]]
   \<and> list_all2 in_domain demo_vars [7 / 2, 0]
   \<and> sample_from 1 my_vars half_draws 0 = Inr [replicate 30 (1 / 2)]
   \<and> sample_initial 1 my_vars half_draws = Inr [replicate 30 (1 / 2)]
   \<and> (\<exists>s' out'. evaluate_point (my_prob 0) 1 store0 (replicate 30 (1 / 2)) = Inr (s', out')
         \<and> s' (val (Ir (input (simu out')))) = replicate 30 (1 / 2))"
proof -
  have si: "sample_initial 1 my_vars half_draws = Inr [replicate 30 (1 / 2)]"
    unfolding sample_initial_def by (rule sample_half)
  have d: "\<forall>k. 0 \<le> half_draws k \<and> half_draws k < 1" by (simp add: half_draws_def)
  have v: "\<forall>d \<in> set demo_vars. type_var d = ''interval'' \<and> get_value d = get_value_uniform
             \<and> (\<exists>lo hi. space d = [lo, hi] \<and> lo \<le> hi)"
    by (simp add: demo_vars_def)
  have r: "length (store0 (val (Ir (input (prob_simu (my_prob 0)))))) = 30"
    by (simp add: store0_def zeros_def)
  have sp: "map space demo_vars = [[2, 5], [-1, 1]]" by (simp add: demo_vars_def)
  from sampling_in_domain [where rng = half_draws and ds = demo_vars and s = store0 and a = 0
      and n = 1 and k = 0 and b = 1, OF d v r]
  have "list_all2 in_domain demo_vars [7 / 2, 0]"
    and "\<exists>s' out'. evaluate_point (my_prob 0) 1 store0 (replicate 30 (1 / 2)) = Inr (s', out')
           \<and> s' (val (Ir (input (simu out')))) = replicate 30 (1 / 2)"
    unfolding sample_demo_vars sample_half by auto
  with d r sp si sample_demo_vars sample_half show ?thesis by blast
qed

subsection \<open>The constraint and the field it reads\<close>

lemma evaluate_fct_InrD:
  assumes "evaluate_fct s out = Inr out'"
  shows "\<exists>a b. out' = out\<lparr>mag := (mag out)\<lparr>Tem_av := Some a, Tem_rip_norm := Some b\<rparr>\<rparr>"
  using assms
  by (auto simp: evaluate_fct_def Let_def split: sum.splits)

lemma evaluate_out0: "evaluate_fct store0 (out0 pp) = Inr (out1 pp)"
proof -
  have "zeros 30 = 0 # zeros 29" by (simp add: zeros_def flip: replicate_Suc)
  then have f: "f1 (zeros 30) = Inr 0" by (simp add: f1_def)
  have hh: "h 0 1 = Inr 1" by (simp add: h_def)
  show ?thesis
    by (simp add: evaluate_fct_def store0_def out0_def out1_def Let_def g_zeros f hh)
qed

text \<open>
  Claim C10, as stated, fails on the notebook: an evaluated output whose
  \<^verbatim>\<open>Tem_rip_pp\<close> is 1000 violates \<^verbatim>\<open>const1\<close> (\<open>|1000| \<le> 700\<close> is false), and on one whose
  \<^verbatim>\<open>Tem_rip_pp\<close> was never set \<^verbatim>\<open>const1\<close> cannot even be computed; yet both are feasible
  for \<^verbatim>\<open>my_prob\<close>, which holds no constraint. The field does not decide the feasibility
  of the evaluated point.
\<close>

theorem feasibility_not_decided_by_Tem_rip_pp:
  "evaluate_fct store0 (out0 (Some 1000)) = Inr (out1 (Some 1000))
   \<and> is_feasible my_constraint (out1 (Some 1000)) = Inr False
   \<and> is_feasible (constraint (my_prob 0)) (out1 (Some 1000)) = Inr True
   \<and> evaluate_fct store0 (out0 None) = Inr (out1 None)
   \<and> is_feasible my_constraint (out1 None) = Inl TypeError
   \<and> is_feasible (constraint (my_prob 0)) (out1 None) = Inr True"
  by (simp add: evaluate_out0 out1_def my_constraint_def check_constraint_def compare_def
      my_prob_def)

text \<open>
  Claim C10, amended. An evaluation that returns has written \<^verbatim>\<open>Tem_av\<close> and
  \<^verbatim>\<open>Tem_rip_norm\<close> and nothing else: the simulation and \<^verbatim>\<open>Tem_rip_pp\<close> are as before.
  \<^verbatim>\<open>Tem_rip_pp\<close> is the field that the extraction function of \<^verbatim>\<open>const1\<close> reads, so what
  \<^verbatim>\<open>const1\<close> extracts from an evaluated output is fixed by what the field held before the
  evaluation (a \<^verbatim>\<open>TypeError\<close> while it is unset). But \<^verbatim>\<open>my_constraint\<close> is not passed to
  \<^verbatim>\<open>OptiProblem\<close>: \<^verbatim>\<open>my_prob\<close> has no constraint, and every evaluated point is feasible
  for it, whatever \<^verbatim>\<open>Tem_rip_pp\<close> holds.
\<close>

theorem evaluate_fct_leaves_Tem_rip_pp:
  assumes "evaluate_fct s out = Inr out'"
  shows "(\<exists>a b. out' = out\<lparr>mag := (mag out)\<lparr>Tem_av := Some a, Tem_rip_norm := Some b\<rparr>\<rparr>)
         \<and> simu out' = simu out
         \<and> Tem_rip_pp (mag out') = Tem_rip_pp (mag out)
         \<and> map (\<lambda>c. get_variable c out') my_constraint
             = [case Tem_rip_pp (mag out) of None \<Rightarrow> Inl TypeError | Some v \<Rightarrow> Inr \<bar>v\<bar>]
         \<and> constraint (my_prob a) = []
         \<and> is_feasible (constraint (my_prob a)) out' = Inr True"
proof -
  from evaluate_fct_InrD [OF assms] obtain x y
    where o: "out' = out\<lparr>mag := (mag out)\<lparr>Tem_av := Some x, Tem_rip_norm := Some y\<rparr>\<rparr>"
    by blast
  then have "simu out' = simu out" "Tem_rip_pp (mag out') = Tem_rip_pp (mag out)" by simp_all
  moreover from o have "map (\<lambda>c. get_variable c out') my_constraint
             = [case Tem_rip_pp (mag out) of None \<Rightarrow> Inl TypeError | Some v \<Rightarrow> Inr \<bar>v\<bar>]"
    by (simp add: my_constraint_def)
  moreover have "constraint (my_prob a) = []" by (simp add: my_prob_def)
  ultimately show ?thesis using o by auto
qed

theorem evaluate_fct_leaves_Tem_rip_pp_witness:
  "evaluate_fct store0 (out0 (Some 1000)) = Inr (out1 (Some 1000))
   \<and> Tem_rip_pp (mag (out1 (Some 1000))) = Some 1000
   \<and> map (\<lambda>c. get_variable c (out1 (Some 1000))) my_constraint = [Inr 1000]
   \<and> is_feasible (constraint (my_prob 0)) (out1 (Some 1000)) = Inr True"
proof -
  have e: "evaluate_fct store0 (out0 (Some 1000)) = Inr (out1 (Some 1000))"
    by (rule evaluate_out0)
  from evaluate_fct_leaves_Tem_rip_pp [OF e, of 0]
  show ?thesis using e by (simp add: out0_def)
qed

section \<open>Properties of the optimization engine\<close>

subsection \<open>The aggregator's front\<close>


lemma set_dedup: "set (dedup ms) \<subseteq> set ms"
  by (induction ms) auto

lemma objectives_dedup: "member_objectives ` set (dedup ms) = member_objectives ` set ms"
proof (induction ms)
  case Nil
  then show ?case by simp
next
  case (Cons m ms)
  have "member_objectives ` set (dedup (m # ms))
        = insert (member_objectives m)
            (member_objectives ` {n \<in> set (dedup ms). member_objectives n \<noteq> member_objectives m})"
    by simp
  also have "\<dots> = insert (member_objectives m) (member_objectives ` set (dedup ms))"
    by auto
  finally show ?case using Cons by simp
qed

lemma distinct_dedup: "distinct (map member_objectives (dedup ms))"
proof (induction ms)
  case Nil
  then show ?case by simp
next
  case (Cons m ms)
  then have "distinct (map member_objectives
                 (filter (\<lambda>n. member_objectives n \<noteq> member_objectives m) (dedup ms)))"
    by (rule distinct_map_filter)
  then show ?case by auto
qed

lemma dedup_keeps_first:
  assumes "m \<in> set (dedup (xs @ ys))" and "t \<in> set xs"
    and "member_objectives t = member_objectives m"
  shows "m \<in> set xs"
  using assms
proof (induction xs)
  case Nil
  then show ?case by simp
next
  case (Cons x xs)
  show ?case
  proof (cases "m = x")
    case True
    then show ?thesis by simp
  next
    case False
    with Cons.prems(1) have ne: "member_objectives m \<noteq> member_objectives x"
      and m: "m \<in> set (dedup (xs @ ys))" by auto
    from ne Cons.prems(2,3) have "t \<in> set xs" by auto
    with m Cons.prems(3) Cons.IH show ?thesis by simp
  qed
qed

lemma non_dominated_subset: "set (non_dominated ms) \<subseteq> set ms"
  by (auto simp: non_dominated_def)

lemma non_dominated_iff:
  "m \<in> set (non_dominated ms) \<longleftrightarrow>
     m \<in> set ms \<and> (\<forall>n \<in> set ms. \<not> dominates (member_objectives n) (member_objectives m))"
  by (auto simp: non_dominated_def list_ex_iff)

lemma true_record_kept:
  assumes m: "m \<in> set (dedup (non_dominated (xs @ ys)))"
    and t: "t \<in> set xs" and eq: "member_objectives t = member_objectives m"
  shows "m \<in> set xs"
proof -
  let ?keep = "\<lambda>m. \<not> list_ex (\<lambda>n. dominates (member_objectives n) (member_objectives m)) (xs @ ys)"
  have split: "non_dominated (xs @ ys) = filter ?keep xs @ filter ?keep ys"
    by (simp add: non_dominated_def)
  from m have "m \<in> set (non_dominated (xs @ ys))" using set_dedup by blast
  then have "?keep m" by (auto simp: non_dominated_def)
  with eq have "?keep t" by simp
  with t have "t \<in> set (filter ?keep xs)" by simp
  moreover from m have "m \<in> set (dedup (filter ?keep xs @ filter ?keep ys))"
    by (simp only: split)
  ultimately have "m \<in> set (filter ?keep xs)"
    using eq dedup_keeps_first [of m "filter ?keep xs" "filter ?keep ys" t] by blast
  then show ?thesis by simp
qed

lemma dominates_sum:
  assumes "dominates a b"
  shows "sum_list a < sum_list b"
proof -
  from assms have "list_all2 (\<le>) a b" and "list_ex (\<lambda>(x, y). x < y) (zip a b)"
    by (simp_all add: dominates_def)
  then show ?thesis
  proof (induction a b rule: list_all2_induct)
    case Nil
    then show ?case by simp
  next
    case (Cons x xs y ys)
    have le: "sum_list xs \<le> sum_list ys"
      using Cons.hyps(2) by (induction xs ys rule: list_all2_induct) auto
    show ?case
    proof (cases "x < y")
      case True
      with le show ?thesis by simp
    next
      case False
      with Cons have "sum_list xs < sum_list ys" by simp
      with Cons.hyps(1) show ?thesis by simp
    qed
  qed
qed

lemma non_dominated_nonempty:
  assumes "ms \<noteq> []"
  shows "non_dominated ms \<noteq> []"
proof -
  let ?f = "\<lambda>m. sum_list (member_objectives m)"
  let ?m = "arg_min_list ?f ms"
  from assms have in_ms: "?m \<in> set ms" by (rule arg_min_list_in)
  have "\<not> dominates (member_objectives n) (member_objectives ?m)" if "n \<in> set ms" for n
  proof
    assume "dominates (member_objectives n) (member_objectives ?m)"
    then have "?f n < ?f ?m" by (rule dominates_sum)
    moreover have "?f ?m = Min (?f ` set ms)" using assms by (rule f_arg_min_list_f)
    then have "?f ?m \<le> ?f n" using that by simp
    ultimately show False by simp
  qed
  with in_ms have "?m \<in> set (non_dominated ms)" by (simp add: non_dominated_iff)
  then show ?thesis by auto
qed

subsection \<open>Runs and their invariants\<close>

declare run.simps [simp del]

lemma run_invariant:
  assumes "I st" and "\<forall>s. I s \<and> phase s \<noteq> Finished \<longrightarrow> I (step cfg p e s)"
  shows "I (run cfg p e st) \<and> phase (run cfg p e st) = Finished"
  using assms
proof (induction cfg p e st rule: run.induct)
  case (1 cfg p e st)
  show ?case
  proof (cases "phase st = Finished")
    case True
    then have "run cfg p e st = st" by (subst run.simps) simp
    with True "1.prems" show ?thesis by simp
  next
    case False
    then have r: "run cfg p e st = run cfg p e (step cfg p e st)" by (subst run.simps) simp
    from "1.prems" False have "I (step cfg p e st)" by blast
    with "1.IH" [OF False] "1.prems"(2) show ?thesis unfolding r by blast
  qed
qed

lemma evaluate_and_record_fields:
  "phase (evaluate_and_record p st x) = phase st"
  "passes (evaluate_and_record p st x) = passes st"
  "trace (evaluate_and_record p st x) = trace st"
  "history (evaluate_and_record p st x) = history st"
  "population (evaluate_and_record p st x) = population st"
  "front (evaluate_and_record p st x) = front st"
  "calls (evaluate_and_record p st x) = Suc (calls st)"
  by (simp_all add: evaluate_and_record_def)

lemma foldl_evaluate_fields:
  "phase (foldl (evaluate_and_record p) st xs) = phase st"
  "passes (foldl (evaluate_and_record p) st xs) = passes st"
  "trace (foldl (evaluate_and_record p) st xs) = trace st"
  "history (foldl (evaluate_and_record p) st xs) = history st"
  "population (foldl (evaluate_and_record p) st xs) = population st"
  "front (foldl (evaluate_and_record p) st xs) = front st"
  "calls (foldl (evaluate_and_record p) st xs) = calls st + length xs"
  by (induction xs arbitrary: st) (simp_all add: evaluate_and_record_fields)

lemma length_draw: "length (fst (draw smp n gen)) = n"
proof (induction n arbitrary: gen)
  case 0
  then show ?case by simp
next
  case (Suc n)
  obtain x gen' where a: "smp gen = (x, gen')" by (cases "smp gen")
  obtain xs gen'' where b: "draw smp n gen' = (xs, gen'')" by (cases "draw smp n gen'")
  from Suc [of gen'] b have "length xs = n" by simp
  with a b show ?case by simp
qed

lemma seeding_fields:
  "phase (seeding cfg p st) = Iterating"
  "passes (seeding cfg p st) = passes st"
  "trace (seeding cfg p st) = trace st"
  "history (seeding cfg p st) = history st"
  "population (seeding cfg p st) = population st"
  "front (seeding cfg p st) = front st"
  by (simp_all add: seeding_def foldl_evaluate_fields split: prod.splits)

lemma seeding_calls: "calls (seeding cfg p st) = calls st + initial_sample_count cfg"
proof -
  obtain xs gen where d: "draw (sample p) (initial_sample_count cfg) (generator st) = (xs, gen)"
    by (cases "draw (sample p) (initial_sample_count cfg) (generator st)")
  from length_draw [of "sample p" "initial_sample_count cfg" "generator st"] d
  have "length xs = initial_sample_count cfg" by simp
  with d show ?thesis by (simp add: seeding_def foldl_evaluate_fields)
qed

lemma iterating_pass_fields:
  "\<exists>best conv.
     passes (iterating_pass cfg p e st) = Suc (passes st)
     \<and> trace (iterating_pass cfg p e st) = trace st @ [best]
     \<and> phase (iterating_pass cfg p e st) = (if conv then Converged else Iterating)
     \<and> history (iterating_pass cfg p e st)
         = history st @ (if conv then [Iterating, Converged] else [Iterating])"
proof -
  obtain x0 gen0 where a: "sample p (generator st) = (x0, gen0)"
    by (cases "sample p (generator st)")
  obtain xs gen where b: "draw (sample p) (candidates_per_iteration cfg - 1) gen0 = (xs, gen)"
    by (cases "draw (sample p) (candidates_per_iteration cfg - 1) gen0")
  obtain x best where c:
    "select_candidate e (fit_all e (archive st) (n_objectives p)) (archive st) x0 xs = (x, best)"
    by (cases "select_candidate e (fit_all e (archive st) (n_objectives p)) (archive st) x0 xs")
  show ?thesis using a b c
    by (intro exI [of _ best]) (auto simp: iterating_pass_def Let_def evaluate_and_record_def)
qed

lemma iterating_pass_other:
  "population (iterating_pass cfg p e st) = population st"
  "front (iterating_pass cfg p e st) = front st"
  "calls (iterating_pass cfg p e st) = Suc (calls st)"
  by (simp_all add: iterating_pass_def Let_def evaluate_and_record_def split: prod.splits)


lemma history_ok_step:
  assumes ok: "history_ok cfg e st"
  shows "history_ok cfg e (step cfg p e st)"
proof (cases "phase st")
  case Seeding
  with ok show ?thesis
    by (simp add: history_ok_def step_def seeding_fields)
next
  case Iterating
  show ?thesis
  proof (cases "cancel_requested e (passes st) \<or> max_iterations cfg \<le> passes st")
    case True
    with ok Iterating show ?thesis
      by (auto simp: history_ok_def step_def)
  next
    case False
    then have s: "step cfg p e st = iterating_pass cfg p e st"
      using Iterating by (simp add: step_def)
    from iterating_pass_fields [of cfg p e st] obtain best conv where
      f: "passes (iterating_pass cfg p e st) = Suc (passes st)"
         "trace (iterating_pass cfg p e st) = trace st @ [best]"
         "phase (iterating_pass cfg p e st) = (if conv then Converged else Iterating)"
         "history (iterating_pass cfg p e st)
            = history st @ (if conv then [Iterating, Converged] else [Iterating])"
      by blast
    have r: "replicate (passes st) Iterating @ [Iterating] = Iterating # replicate (passes st) Iterating"
      by (simp add: replicate_append_same)
    from ok Iterating False show ?thesis
      unfolding s by (simp add: history_ok_def f r)
  qed
next
  case Converged
  with ok show ?thesis by (simp add: history_ok_def step_def)
next
  case Exhausted
  with ok show ?thesis by (simp add: history_ok_def step_def)
next
  case Cancelled
  with ok show ?thesis by (simp add: history_ok_def step_def)
next
  case PopulationSearch
  with ok show ?thesis by (auto simp: history_ok_def step_def Let_def)
next
  case Finished
  with ok show ?thesis by (simp add: history_ok_def step_def)
qed

lemma history_ok_initial: "history_ok cfg e (initial cfg)"
  by (simp add: history_ok_def initial_def)

lemma history_ok_solve:
  "history_ok cfg e (solve cfg p e) \<and> phase (solve cfg p e) = Finished"
  unfolding solve_def
  by (rule run_invariant) (simp_all add: history_ok_initial history_ok_step)


lemma make_record_fields:
  "point (make_record cmps x ev) = x"
  "failed (make_record cmps x ev) = (ev = Failure)"
  by (simp_all add: make_record_def split: evaluation.splits)

lemma archive_ok_evaluate:
  assumes "archive_ok p st"
  shows "archive_ok p (evaluate_and_record p st x)"
proof -
  let ?rs = "records (archive st)"
  let ?r = "make_record (comparisons p) x (evaluate p (Suc (calls st)) x)"
  from assms have len: "length ?rs = calls st"
    and cnt: "nb_failures (archive st) = length (filter failed ?rs)"
    and old: "\<forall>i < calls st. failed (?rs ! i) = (evaluate p (Suc i) (point (?rs ! i)) = Failure)"
    by (simp_all add: archive_ok_def)
  have rs': "records (archive (evaluate_and_record p st x)) = ?rs @ [?r]"
    and c': "calls (evaluate_and_record p st x) = Suc (calls st)"
    and n': "nb_failures (archive (evaluate_and_record p st x))
               = nb_failures (archive st) + (if failed ?r then 1 else 0)"
    by (simp_all add: evaluate_and_record_def record_evaluation_def)
  have "failed ((?rs @ [?r]) ! i) = (evaluate p (Suc i) (point ((?rs @ [?r]) ! i)) = Failure)"
    if "i < Suc (calls st)" for i
  proof (cases "i < calls st")
    case True
    with old len show ?thesis by (simp add: nth_append)
  next
    case False
    with that have "i = calls st" by simp
    with len show ?thesis by (simp add: nth_append make_record_fields)
  qed
  with len cnt show ?thesis
    unfolding archive_ok_def rs' c' n' by simp
qed

lemma archive_ok_foldl:
  "archive_ok p st \<Longrightarrow> archive_ok p (foldl (evaluate_and_record p) st xs)"
  by (induction xs arbitrary: st) (simp_all add: archive_ok_evaluate)

lemma archive_ok_cong:
  assumes "archive_ok p st" and "archive st' = archive st" and "calls st' = calls st"
  shows "archive_ok p st'"
  using assms by (simp add: archive_ok_def)

lemma archive_ok_seeding:
  assumes "archive_ok p st"
  shows "archive_ok p (seeding cfg p st)"
proof -
  obtain xs gen where d: "draw (sample p) (initial_sample_count cfg) (generator st) = (xs, gen)"
    by (cases "draw (sample p) (initial_sample_count cfg) (generator st)")
  from assms have "archive_ok p (st\<lparr>generator := gen\<rparr>)"
    by (rule archive_ok_cong) simp_all
  then have "archive_ok p (foldl (evaluate_and_record p) (st\<lparr>generator := gen\<rparr>) xs)"
    by (rule archive_ok_foldl)
  then show ?thesis
    unfolding seeding_def d by (rule archive_ok_cong) simp_all
qed

lemma archive_ok_pass:
  assumes "archive_ok p st"
  shows "archive_ok p (iterating_pass cfg p e st)"
proof -
  obtain x0 gen0 where a: "sample p (generator st) = (x0, gen0)"
    by (cases "sample p (generator st)")
  obtain xs gen where b: "draw (sample p) (candidates_per_iteration cfg - 1) gen0 = (xs, gen)"
    by (cases "draw (sample p) (candidates_per_iteration cfg - 1) gen0")
  obtain x best where c:
    "select_candidate e (fit_all e (archive st) (n_objectives p)) (archive st) x0 xs = (x, best)"
    by (cases "select_candidate e (fit_all e (archive st) (n_objectives p)) (archive st) x0 xs")
  from assms have "archive_ok p (st\<lparr>generator := gen\<rparr>)"
    by (rule archive_ok_cong) simp_all
  then have "archive_ok p (evaluate_and_record p (st\<lparr>generator := gen\<rparr>) x)"
    by (rule archive_ok_evaluate)
  then show ?thesis
    using a b c
    by (elim archive_ok_cong) (simp_all add: iterating_pass_def Let_def)
qed

lemma archive_ok_step:
  assumes ok: "archive_ok p st"
  shows "archive_ok p (step cfg p e st)"
proof (cases "phase st")
  case Seeding
  with ok show ?thesis by (simp add: step_def archive_ok_seeding)
next
  case Iterating
  with ok show ?thesis
    by (auto simp: step_def archive_ok_pass elim: archive_ok_cong)
qed (use ok in \<open>auto simp: step_def Let_def elim: archive_ok_cong\<close>)

lemma archive_ok_initial: "archive_ok p (initial cfg)"
  by (simp add: archive_ok_def initial_def empty_archive_def)

lemma seeded_step:
  assumes "seeded cfg st"
  shows "seeded cfg (step cfg p e st)"
proof (cases "phase st")
  case Seeding
  then show ?thesis
    by (simp add: seeded_def step_def seeding_fields seeding_calls)
next
  case Iterating
  with assms show ?thesis
    by (auto simp: seeded_def step_def iterating_pass_other)
qed (use assms in \<open>auto simp: seeded_def step_def Let_def\<close>)

lemma front_ok_step:
  assumes "front_ok st"
  shows "front_ok (step cfg p e st)"
proof (cases "phase st")
  case Seeding
  with assms show ?thesis by (simp add: front_ok_def step_def seeding_fields)
next
  case Iterating
  from iterating_pass_fields [of cfg p e st]
  have "phase (iterating_pass cfg p e st) \<noteq> Finished" by (auto split: if_splits)
  with assms Iterating show ?thesis
    by (auto simp: front_ok_def step_def iterating_pass_other)
qed (use assms in \<open>auto simp: front_ok_def step_def Let_def\<close>)

lemma run_ok_solve:
  "archive_ok p (solve cfg p e) \<and> seeded cfg (solve cfg p e) \<and> front_ok (solve cfg p e)"
proof -
  let ?I = "\<lambda>s. archive_ok p s \<and> seeded cfg s \<and> front_ok s"
  have "seeded cfg (initial cfg)" "front_ok (initial cfg)"
    by (simp_all add: seeded_def front_ok_def initial_def)
  with archive_ok_initial have "?I (initial cfg)" by simp
  moreover have "\<forall>s. ?I s \<and> phase s \<noteq> Finished \<longrightarrow> ?I (step cfg p e s)"
    by (simp add: archive_ok_step seeded_step front_ok_step)
  ultimately have "?I (run cfg p e (initial cfg)) \<and> phase (run cfg p e (initial cfg)) = Finished"
    by (rule run_invariant)
  then show ?thesis by (simp add: solve_def)
qed

subsection \<open>The front of a run\<close>

text \<open>
  Claim C6. The front that the Result Aggregator returns is internally consistent: no
  member dominates another, no two members have the same objective vector, and a
  member whose objective vector is that of a true-evaluated record of the combined set
  is itself true-evaluated. The members come from the combined set and none of them is
  dominated by any record of that set. The front of a finished run is this front, over
  the run's archive and population.
\<close>

theorem pareto_front_consistent:
  "(\<forall>a \<in> set (pareto_front A pop). \<forall>b \<in> set (pareto_front A pop).
       \<not> dominates (member_objectives a) (member_objectives b))
   \<and> distinct (map member_objectives (pareto_front A pop))
   \<and> (\<forall>m \<in> set (pareto_front A pop).
         (\<exists>t \<in> set (merge_records A pop).
             member_origin t = TrueEvaluation \<and> member_objectives t = member_objectives m)
         \<longrightarrow> member_origin m = TrueEvaluation)
   \<and> set (pareto_front A pop) \<subseteq> set (merge_records A pop)
   \<and> (\<forall>m \<in> set (pareto_front A pop). \<forall>n \<in> set (merge_records A pop).
         \<not> dominates (member_objectives n) (member_objectives m))
   \<and> front (solve cfg p e)
       = pareto_front (archive (solve cfg p e)) (population (solve cfg p e))"
proof -
  let ?F = "pareto_front A pop"
  let ?M = "merge_records A pop"
  have sub: "set ?F \<subseteq> set (non_dominated ?M)"
    unfolding pareto_front_def by (rule set_dedup)
  then have subM: "set ?F \<subseteq> set ?M" using non_dominated_subset by blast
  have glob: "\<forall>m \<in> set ?F. \<forall>n \<in> set ?M.
                \<not> dominates (member_objectives n) (member_objectives m)"
    using sub by (auto simp: non_dominated_iff)
  with subM have pair: "\<forall>a \<in> set ?F. \<forall>b \<in> set ?F.
                \<not> dominates (member_objectives a) (member_objectives b)"
    by blast
  have dist: "distinct (map member_objectives ?F)"
    unfolding pareto_front_def by (rule distinct_dedup)
  let ?T = "map (\<lambda>r. \<lparr>member_point = point r, member_objectives = objectives r,
                        member_origin = TrueEvaluation\<rparr>)
              (filter (\<lambda>r. \<not> failed r) (records A))"
  let ?P = "map (\<lambda>i. \<lparr>member_point = ind_point i, member_objectives = ind_objectives i,
                        member_origin = SurrogatePrediction\<rparr>) pop"
  have M: "?M = ?T @ ?P" by (simp add: merge_records_def)
  have keep: "member_origin m = TrueEvaluation"
    if m: "m \<in> set ?F" and t: "t \<in> set ?M" "member_origin t = TrueEvaluation"
      "member_objectives t = member_objectives m" for m t
  proof -
    from t(1,2) have "t \<in> set ?T" unfolding M by auto
    moreover from m have "m \<in> set (dedup (non_dominated (?T @ ?P)))"
      by (simp add: pareto_front_def M)
    ultimately have "m \<in> set ?T"
      using t(3) true_record_kept [of m ?T ?P t] by blast
    then show ?thesis by auto
  qed
  have "front (solve cfg p e)
          = pareto_front (archive (solve cfg p e)) (population (solve cfg p e))"
    using run_ok_solve [of p cfg e] history_ok_solve [of cfg e p] by (simp add: front_ok_def)
  with pair dist keep subM glob show ?thesis by blast
qed

lemma demo_front_eval: "front (solve demo_config demo_problem demo_engine) = demo_front"
  by code_simp

theorem pareto_front_consistent_witness:
  "front (solve demo_config demo_problem demo_engine) = demo_front
   \<and> length demo_front = 4
   \<and> distinct (map member_objectives demo_front)
   \<and> \<not> dominates (member_objectives (demo_front ! 0)) (member_objectives (demo_front ! 3))
   \<and> \<not> dominates (member_objectives (demo_front ! 3)) (member_objectives (demo_front ! 0))
   \<and> set demo_front
       \<subseteq> set (merge_records (archive (solve demo_config demo_problem demo_engine))
                (population (solve demo_config demo_problem demo_engine)))"
proof -
  let ?out = "solve demo_config demo_problem demo_engine"
  from pareto_front_consistent [of "archive ?out" "population ?out" demo_config demo_problem
      demo_engine]
  have pair: "\<forall>a \<in> set (front ?out). \<forall>b \<in> set (front ?out).
                \<not> dominates (member_objectives a) (member_objectives b)"
    and dist: "distinct (map member_objectives (front ?out))"
    and sub: "set (front ?out) \<subseteq> set (merge_records (archive ?out) (population ?out))"
    by simp_all
  have len: "length demo_front = 4" by (simp add: demo_front_def)
  then have "demo_front ! 0 \<in> set demo_front" "demo_front ! 3 \<in> set demo_front" by simp_all
  with pair dist sub len show ?thesis unfolding demo_front_eval by blast
qed

subsection \<open>The iteration budget and the failure policy\<close>

text \<open>
  Claim C2. Every run ends, with at most \<open>max_iterations\<close> Iterating passes (one entry of
  the score trace for each). Its history is \<open>Seeding\<close>, one \<open>Iterating\<close> for each pass,
  and then either \<open>Converged\<close> followed by the Population Search, or \<open>Exhausted\<close>, with
  the budget used up, followed by the Population Search all the same, or \<open>Cancelled\<close>,
  which needs a cancellation request. An exhausted budget is a terminal state of the
  loop like \<open>Converged\<close>: the run goes on to the Population Search and finishes.
\<close>

theorem refinement_loop_bounded:
  "phase (solve cfg p e) = Finished
   \<and> passes (solve cfg p e) \<le> max_iterations cfg
   \<and> length (trace (solve cfg p e)) = passes (solve cfg p e)
   \<and> (history (solve cfg p e)
         = Seeding # replicate (passes (solve cfg p e)) Iterating @ [Converged, PopulationSearch]
       \<or> (passes (solve cfg p e) = max_iterations cfg
           \<and> history (solve cfg p e)
               = Seeding # replicate (passes (solve cfg p e)) Iterating
                   @ [Exhausted, PopulationSearch])
       \<or> (cancel_requested e (passes (solve cfg p e))
           \<and> history (solve cfg p e)
               = Seeding # replicate (passes (solve cfg p e)) Iterating @ [Cancelled]))"
  using history_ok_solve [of cfg e p]
  by (auto simp: history_ok_def Let_def)

lemma demo_history:
  "history (solve demo_config demo_problem demo_engine)
     = [Seeding, Iterating, Iterating, Exhausted, PopulationSearch]"
  by code_simp

theorem refinement_loop_bounded_witness:
  "passes (solve demo_config demo_problem demo_engine) \<le> max_iterations demo_config
   \<and> max_iterations demo_config = 2
   \<and> phase (solve demo_config demo_problem demo_engine) = Finished
   \<and> history (solve demo_config demo_problem demo_engine)
       = [Seeding, Iterating, Iterating, Exhausted, PopulationSearch]"
proof -
  from refinement_loop_bounded [of demo_config demo_problem demo_engine]
  have "phase (solve demo_config demo_problem demo_engine) = Finished"
    and "passes (solve demo_config demo_problem demo_engine) \<le> max_iterations demo_config"
    by blast+
  moreover have "max_iterations demo_config = 2" by (simp add: demo_config_def)
  ultimately show ?thesis using demo_history by blast
qed

lemma card_every_third: "card {c. 1 \<le> c \<and> c \<le> n \<and> c mod 3 = 0} = n div (3::nat)"
proof (induction n)
  case 0
  then show ?case by simp
next
  case (Suc n)
  let ?S = "{c. 1 \<le> c \<and> c \<le> n \<and> c mod 3 = 0}"
  have fin: "finite ?S" by simp
  have notin: "Suc n \<notin> ?S" by simp
  show ?case
  proof (cases "Suc n mod 3 = 0")
    case True
    then have "{c. 1 \<le> c \<and> c \<le> Suc n \<and> c mod 3 = 0} = insert (Suc n) ?S"
      by (auto simp: le_Suc_eq)
    with fin notin Suc True show ?thesis by (simp add: div_Suc)
  next
    case False
    then have "{c. 1 \<le> c \<and> c \<le> Suc n \<and> c mod 3 = 0} = ?S"
      by (auto simp: le_Suc_eq)
    with Suc False show ?thesis by (simp add: div_Suc)
  qed
qed

lemma failures_card:
  assumes "\<forall>i < length rs. failed (rs ! i) = E (Suc i)"
  shows "length (filter failed rs) = card {c. 1 \<le> c \<and> c \<le> length rs \<and> E c}"
proof -
  have "length (filter failed rs) = card {i. i < length rs \<and> failed (rs ! i)}"
    by (rule length_filter_conv_card)
  also have "{i. i < length rs \<and> failed (rs ! i)} = {i. i < length rs \<and> E (Suc i)}"
    using assms by auto
  also have "card \<dots> = card (Suc ` {i. i < length rs \<and> E (Suc i)})"
    by (simp add: card_image)
  also have "Suc ` {i. i < length rs \<and> E (Suc i)} = {c. 1 \<le> c \<and> c \<le> length rs \<and> E c}"
  proof (intro set_eqI iffI)
    fix c assume "c \<in> Suc ` {i. i < length rs \<and> E (Suc i)}"
    then show "c \<in> {c. 1 \<le> c \<and> c \<le> length rs \<and> E c}" by auto
  next
    fix c assume "c \<in> {c. 1 \<le> c \<and> c \<le> length rs \<and> E c}"
    then have "c = Suc (c - 1)" "c - 1 < length rs" "E (Suc (c - 1))" by auto
    then show "c \<in> Suc ` {i. i < length rs \<and> E (Suc i)}" by blast
  qed
  finally show ?thesis .
qed

lemma training_set_excludes_failed:
  "feasible_training_set a k
     = feasible_training_set (a\<lparr>records := filter (\<lambda>r. \<not> failed r) (records a)\<rparr>) k"
  by (simp add: feasible_training_set_def conj_commute conj_left_commute cong: conj_cong)

lemma training_set_length:
  "length (feasible_training_set a k) + length (filter failed (records a)) \<le> length (records a)"
proof -
  let ?ok = "filter (\<lambda>r. \<not> failed r) (records a)"
  have eq: "filter (\<lambda>r. feasible r \<and> \<not> failed r \<and> k < length (objectives r)) (records a)
        = filter (\<lambda>r. feasible r \<and> k < length (objectives r)) ?ok"
    unfolding filter_filter by (rule filter_cong) auto
  have "length (filter (\<lambda>r. feasible r \<and> k < length (objectives r)) ?ok) \<le> length ?ok"
    by (rule length_filter_le)
  then have "length (feasible_training_set a k) \<le> length ?ok"
    by (simp only: feasible_training_set_def length_map eq)
  then show ?thesis
    using sum_length_filter_compl [of failed "records a"] by simp
qed

lemma pareto_front_nonempty:
  assumes "r \<in> set (records a)" and "\<not> failed r"
  shows "pareto_front a pop \<noteq> []"
proof -
  from assms have "merge_records a pop \<noteq> []" by (auto simp: merge_records_def filter_empty_conv)
  then have "non_dominated (merge_records a pop) \<noteq> []" by (rule non_dominated_nonempty)
  then show ?thesis by (cases "non_dominated (merge_records a pop)") (simp_all add: pareto_front_def)
qed

text \<open>
  Claim C5. A run that is not cancelled finishes, whatever the Evaluator does: the loop
  ends \<open>Converged\<close> or \<open>Exhausted\<close> and the Population Search follows. The archive holds
  one record for each Evaluator call; the record of call \<open>c\<close> is marked failed iff the
  Evaluator failed on call \<open>c\<close>, and the reported failure count is the number of failed
  calls. Failed records are excluded from every surrogate training set. If some call
  succeeded the front is not empty. The whole initial batch is evaluated. In particular,
  for an Evaluator that fails on exactly every third call, in a run that evaluates at
  all, the front is not empty and the failure count is a third of the calls, rounded
  down.
\<close>

theorem failures_never_abort:
  assumes nc: "\<forall>k. \<not> cancel_requested e k"
    and out: "out = solve cfg p e"
    and a: "a = archive out"
  shows "phase out = Finished
     \<and> (\<exists>t. (t = Converged \<or> t = Exhausted)
            \<and> history out = Seeding # replicate (passes out) Iterating @ [t, PopulationSearch])
     \<and> length (records a) = calls out
     \<and> (\<forall>c. 1 \<le> c \<and> c \<le> calls out \<longrightarrow>
            failed (records a ! (c - 1)) = (evaluate p c (point (records a ! (c - 1))) = Failure))
     \<and> nb_failures a
         = card {c. 1 \<le> c \<and> c \<le> calls out \<and> evaluate p c (point (records a ! (c - 1))) = Failure}
     \<and> (\<forall>k. feasible_training_set a k
               = feasible_training_set (a\<lparr>records := filter (\<lambda>r. \<not> failed r) (records a)\<rparr>) k)
     \<and> (\<forall>k. length (feasible_training_set a k) + nb_failures a \<le> calls out)
     \<and> ((\<exists>c. 1 \<le> c \<and> c \<le> calls out \<and> evaluate p c (point (records a ! (c - 1))) \<noteq> Failure)
          \<longrightarrow> front out \<noteq> [])
     \<and> initial_sample_count cfg \<le> calls out
     \<and> ((\<forall>c x. (evaluate p c x = Failure) = (c mod 3 = 0)) \<and> 0 < calls out
          \<longrightarrow> front out \<noteq> [] \<and> nb_failures a = calls out div 3)"
proof -
  let ?rs = "records a"
  let ?E = "\<lambda>c. evaluate p c (point (?rs ! (c - 1))) = Failure"
  from history_ok_solve [of cfg e p] have fin: "phase out = Finished"
    and h: "history_ok cfg e out" by (simp_all add: out)
  from h fin nc have hist: "\<exists>t. (t = Converged \<or> t = Exhausted)
            \<and> history out = Seeding # replicate (passes out) Iterating @ [t, PopulationSearch]"
    by (auto simp: history_ok_def Let_def)
  from run_ok_solve [of p cfg e] have ok: "archive_ok p out" and sd: "seeded cfg out"
    and fr: "front_ok out" by (simp_all add: out)
  from ok have len: "length ?rs = calls out"
    and cnt: "nb_failures a = length (filter failed ?rs)"
    and each: "\<forall>i < length ?rs. failed (?rs ! i) = ?E (Suc i)"
    by (simp_all add: archive_ok_def a)
  from each len have calls: "\<forall>c. 1 \<le> c \<and> c \<le> calls out \<longrightarrow> failed (?rs ! (c - 1)) = ?E c"
  proof (intro allI impI)
    fix c assume c: "1 \<le> c \<and> c \<le> calls out"
    with len have "c - 1 < length ?rs" by auto
    with each have "failed (?rs ! (c - 1)) = ?E (Suc (c - 1))" by blast
    with c show "failed (?rs ! (c - 1)) = ?E c" by simp
  qed
  have card: "nb_failures a = card {c. 1 \<le> c \<and> c \<le> calls out \<and> ?E c}"
    unfolding cnt using failures_card [of ?rs ?E, OF each] len by simp
  have excl: "\<forall>k. feasible_training_set a k
               = feasible_training_set (a\<lparr>records := filter (\<lambda>r. \<not> failed r) (records a)\<rparr>) k"
    using training_set_excludes_failed by blast
  have tl: "\<forall>k. length (feasible_training_set a k) + nb_failures a \<le> calls out"
    using training_set_length [of a] cnt len by simp
  from fr fin have front: "front out = pareto_front a (population out)"
    by (simp add: front_ok_def a)
  have ne: "front out \<noteq> []" if "1 \<le> c" "c \<le> calls out" "\<not> ?E c" for c
  proof -
    from that calls have "\<not> failed (?rs ! (c - 1))" by blast
    moreover from that len have "?rs ! (c - 1) \<in> set ?rs" by auto
    ultimately show ?thesis unfolding front by (intro pareto_front_nonempty)
  qed
  from sd fin have batch: "initial_sample_count cfg \<le> calls out" by (simp add: seeded_def)
  have third: "front out \<noteq> [] \<and> nb_failures a = calls out div 3"
    if t: "\<forall>c x. (evaluate p c x = Failure) = (c mod 3 = 0)" and n: "0 < calls out"
  proof -
    from n have "1 \<le> calls out" by simp
    moreover from t have "\<not> ?E 1" by simp
    ultimately have "front out \<noteq> []" using ne [of 1] by simp
    moreover from t have "{c. 1 \<le> c \<and> c \<le> calls out \<and> ?E c}
                            = {c. 1 \<le> c \<and> c \<le> calls out \<and> c mod 3 = 0}" by simp
    with card have "nb_failures a = calls out div 3"
      using card_every_third [of "calls out"] by simp
    ultimately show ?thesis by simp
  qed
  from fin hist len calls card excl tl ne batch third show ?thesis by blast
qed

lemma demo_calls: "calls (solve demo_config demo_problem demo_engine) = 5"
  by code_simp

lemma demo_third: "(evaluate demo_problem c x = Failure) = (c mod 3 = 0)"
  by (simp add: evaluate_def demo_problem_def)

theorem failures_never_abort_witness:
  "(\<forall>k. \<not> cancel_requested demo_engine k)
   \<and> (\<forall>c x. (evaluate demo_problem c x = Failure) = (c mod 3 = 0))
   \<and> 0 < initial_sample_count demo_config
   \<and> calls (solve demo_config demo_problem demo_engine) = 5
   \<and> nb_failures (archive (solve demo_config demo_problem demo_engine)) = 1
   \<and> front (solve demo_config demo_problem demo_engine) \<noteq> []
   \<and> phase (solve demo_config demo_problem demo_engine) = Finished"
proof -
  have nc: "\<forall>k. \<not> cancel_requested demo_engine k" by (simp add: demo_engine_def)
  have n: "0 < initial_sample_count demo_config" by (simp add: demo_config_def)
  have "0 < calls (solve demo_config demo_problem demo_engine)" by (simp add: demo_calls)
  with failures_never_abort [OF nc refl refl, of demo_config demo_problem] demo_third
  have "phase (solve demo_config demo_problem demo_engine) = Finished"
    and "front (solve demo_config demo_problem demo_engine) \<noteq> []"
    and "nb_failures (archive (solve demo_config demo_problem demo_engine))
           = calls (solve demo_config demo_problem demo_engine) div 3"
    by blast+
  with nc n demo_third demo_calls show ?thesis by simp
qed

end
